theory Spec2Isabelle
  imports Complex_Main "HOL-Library.List_Lexorder" "HOL-Library.Char_ord" "HOL-Library.Multiset"
begin

section \<open>Face recognition engine (face\_utils.py)\<close>

text \<open>
  Embeddings are the vectors returned by the face library.  A double is read as the real
  number it stands for, so comparisons of doubles are comparisons of reals; where the
  engine computes with doubles, the rounding is written out.  The gallery
  \<open>known_faces\<close> is a Python dict, which keeps insertion order: an association list
  with one entry per key.
\<close>

type_synonym embedding = "real list"
type_synonym gallery = "(string \<times> embedding list) list"
type_synonym face_location = "int \<times> int \<times> int \<times> int"

text \<open>
  The calls into the \<open>face_recognition\<close> library that the engine makes.  The first two
  may raise, which is the value \<open>None\<close>; otherwise they return a list.  The third,
  \<open>row_norm\<close>, is what \<open>face_distance\<close> computes for one stored vector and the probe:
  \<open>np.linalg.norm\<close> of their difference, a double computed by NumPy from that row
  alone.  Its value is taken from the library; its intermediate results are rounded, so
  it need not be the Euclidean distance of exact arithmetic.  The vectors of the library
  are finite: infinities and NaN are not modelled.
\<close>

record 'img face_lib =
  face_locations :: "'img \<Rightarrow> face_location list option"
  face_encodings :: "'img \<Rightarrow> face_location \<Rightarrow> embedding list option"
  row_norm :: "embedding \<Rightarrow> embedding \<Rightarrow> real"

text \<open>Messages the engine shows with \<open>st.error\<close>; they are its only output besides results.\<close>

datatype ui_error = ErrorSavingEncodings | ErrorDetectingFaces | ErrorGeneratingEncoding

text \<open>
  The engine object.  \<open>disk\<close> is the content of the pickle file at \<open>encodings_path\<close>
  (\<open>None\<close>: no readable file); \<open>ui_log\<close> collects the \<open>st.error\<close> messages.
\<close>

record engine =
  known_faces :: gallery
  tolerance :: real
  disk :: "gallery option"
  ui_log :: "ui_error list"

text \<open>
  What the file system does when \<open>save_encodings\<close> runs: the dump succeeds, or an exception
  is raised and the file is left as the failure left it.
\<close>

datatype save_io = Written | WriteFailed "gallery option"

definition save_encodings :: "save_io \<Rightarrow> engine \<Rightarrow> engine" where
  "save_encodings io s =
     (case io of
        Written \<Rightarrow> s\<lparr>disk := Some (known_faces s)\<rparr>
      | WriteFailed d \<Rightarrow> s\<lparr>disk := d, ui_log := ui_log s @ [ErrorSavingEncodings]\<rparr>)"

definition detect_faces :: "'img face_lib \<Rightarrow> engine \<Rightarrow> 'img \<Rightarrow> face_location list \<times> engine" where
  "detect_faces lib s image_rgb =
     (case face_locations lib image_rgb of
        Some locs \<Rightarrow> (locs, s)
      | None \<Rightarrow> ([], s\<lparr>ui_log := ui_log s @ [ErrorDetectingFaces]\<rparr>))"

definition generate_encoding ::
  "'img face_lib \<Rightarrow> engine \<Rightarrow> 'img \<Rightarrow> face_location \<Rightarrow> embedding option \<times> engine" where
  "generate_encoding lib s image_rgb face_location =
     (case face_encodings lib image_rgb face_location of
        Some encodings \<Rightarrow> (if length encodings > 0 then (Some (hd encodings), s) else (None, s))
      | None \<Rightarrow> (None, s\<lparr>ui_log := ui_log s @ [ErrorGeneratingEncoding]\<rparr>))"

subsection \<open>Dictionary operations on the gallery\<close>

definition has_user :: "gallery \<Rightarrow> string \<Rightarrow> bool" where
  "has_user g user_name = (user_name \<in> set (map fst g))"

definition append_encoding :: "gallery \<Rightarrow> string \<Rightarrow> embedding \<Rightarrow> gallery" where
  "append_encoding g user_name encoding =
     map (\<lambda>(k, es). if k = user_name then (k, es @ [encoding]) else (k, es)) g"

definition new_entry :: "gallery \<Rightarrow> string \<Rightarrow> embedding \<Rightarrow> gallery" where
  "new_entry g user_name encoding = g @ [(user_name, [encoding])]"

definition del_entry :: "gallery \<Rightarrow> string \<Rightarrow> gallery" where
  "del_entry g user_name = filter (\<lambda>(k, es). k \<noteq> user_name) g"

subsection \<open>register\_face\<close>

datatype register_message =
  RegNoFace | RegMultipleFaces nat | RegEncodingFailed | RegAddedScan string | RegRegistered string

record register_result =
  reg_success :: bool
  reg_message :: register_message
  reg_encoding :: "embedding option"

definition register_face ::
  "'img face_lib \<Rightarrow> save_io \<Rightarrow> engine \<Rightarrow> 'img \<Rightarrow> string \<Rightarrow> register_result \<times> engine" where
  "register_face lib io s image_rgb user_name =
     (let (locs, s1) = detect_faces lib s image_rgb in
      if length locs = 0 then
        (\<lparr>reg_success = False, reg_message = RegNoFace, reg_encoding = None\<rparr>, s1)
      else if length locs > 1 then
        (\<lparr>reg_success = False, reg_message = RegMultipleFaces (length locs),
          reg_encoding = None\<rparr>, s1)
      else
        let (enc, s2) = generate_encoding lib s1 image_rgb (hd locs) in
        case enc of
          None \<Rightarrow>
            (\<lparr>reg_success = False, reg_message = RegEncodingFailed, reg_encoding = None\<rparr>, s2)
        | Some encoding \<Rightarrow>
            let (s3, msg) =
                  (if has_user (known_faces s2) user_name
                   then (s2\<lparr>known_faces := append_encoding (known_faces s2) user_name encoding\<rparr>,
                         RegAddedScan user_name)
                   else (s2\<lparr>known_faces := new_entry (known_faces s2) user_name encoding\<rparr>,
                         RegRegistered user_name));
                s4 = save_encodings io s3
            in (\<lparr>reg_success = True, reg_message = msg, reg_encoding = Some encoding\<rparr>, s4))"

subsection \<open>recognize\_face\<close>

text \<open>
  \<open>face_recognition.face_distance\<close> returns the norm of each row of
  \<open>face_encodings - face_to_compare\<close>, and an empty array for an empty list.  The face
  library emits vectors of one fixed dimension; rows of another length than the probe
  make the subtraction raise (broadcasting of vectors of length one is not modelled).
\<close>

datatype exn = ValueError

definition face_distance ::
  "'img face_lib \<Rightarrow> embedding list \<Rightarrow> embedding \<Rightarrow> exn + real list" where
  "face_distance lib encs probe =
     (if length encs = 0 then Inr []
      else if list_all (\<lambda>e. length e = length probe) encs
      then Inr (map (\<lambda>e. row_norm lib e probe) encs)
      else Inl ValueError)"

text \<open>
  Rounding to the nearest double, ties to the even neighbour.  The doubles of the binade
  \<open>2^e \<le> \<bar>x\<bar> < 2^(e+1)\<close> are the multiples of \<open>2^(e-52)\<close>; below \<open>2^-1022\<close> the
  spacing stays \<open>2^-1074\<close>.  Overflow to infinity is left out: the engine rounds only
  values between 0 and 1.
\<close>

definition round_even :: "real \<Rightarrow> int" where
  "round_even y =
     (if y - of_int \<lfloor>y\<rfloor> < 1 / 2 then \<lfloor>y\<rfloor>
      else if y - of_int \<lfloor>y\<rfloor> > 1 / 2 then \<lfloor>y\<rfloor> + 1
      else if even \<lfloor>y\<rfloor> then \<lfloor>y\<rfloor> else \<lfloor>y\<rfloor> + 1)"

definition double_exp :: "real \<Rightarrow> int" where
  "double_exp x = max \<lfloor>log 2 \<bar>x\<bar>\<rfloor> (- 1022) - 52"

definition round_double :: "real \<Rightarrow> real" where
  "round_double x =
     (if x = 0 then 0
      else of_int (round_even (x / 2 powr of_int (double_exp x))) * 2 powr of_int (double_exp x))"

text \<open>\<open>np.argmin\<close>: the first index of the least value.  It is only called on a non-empty array.\<close>

fun argmin :: "real list \<Rightarrow> nat" where
  "argmin [] = 0"
| "argmin [x] = 0"
| "argmin (x # xs) = (let i = argmin xs in if x \<le> xs ! i then 0 else Suc i)"

text \<open>The flat lists built by the two nested loops over \<open>known_faces.items()\<close>.\<close>

definition all_known :: "gallery \<Rightarrow> (embedding \<times> string) list" where
  "all_known g = concat (map (\<lambda>(name, encodings). map (\<lambda>encoding. (encoding, name)) encodings) g)"

datatype recognize_message =
  NoFaceDetected | MultipleFacesDetected | NoRegisteredUsers | CouldNotEncode
  | NoKnownFaces | RecognizedAs string | NotRecognized real

record recognize_result =
  success :: bool
  name :: "string option"
  confidence :: real
  message :: recognize_message
  distances :: "real list"

definition rejected :: "recognize_message \<Rightarrow> real list \<Rightarrow> recognize_result" where
  "rejected msg ds =
     \<lparr>success = False, name = None, confidence = 0, message = msg, distances = ds\<rparr>"

text \<open>
  \<open>confidence = 1 - (best_distance / self.tolerance)\<close> is evaluated in doubles: the
  quotient is rounded, then the difference.  The norms of the library are not negative,
  so the tolerance is positive where the quotient is taken.
\<close>

definition recognize_face ::
  "'img face_lib \<Rightarrow> engine \<Rightarrow> 'img \<Rightarrow> (exn + recognize_result) \<times> engine" where
  "recognize_face lib s image_rgb =
     (let (locs, s1) = detect_faces lib s image_rgb in
      if length locs = 0 then (Inr (rejected NoFaceDetected []), s1)
      else if length locs > 1 then (Inr (rejected MultipleFacesDetected []), s1)
      else if known_faces s1 = [] then (Inr (rejected NoRegisteredUsers []), s1)
      else
        let (enc, s2) = generate_encoding lib s1 image_rgb (hd locs) in
        case enc of
          None \<Rightarrow> (Inr (rejected CouldNotEncode []), s2)
        | Some unknown_encoding \<Rightarrow>
            let all_known_encodings = map fst (all_known (known_faces s2));
                all_known_names = map snd (all_known (known_faces s2))
            in case face_distance lib all_known_encodings unknown_encoding of
                 Inl e \<Rightarrow> (Inl e, s2)
               | Inr ds \<Rightarrow>
                   if length ds = 0 then (Inr (rejected NoKnownFaces []), s2)
                   else
                     let best_match_idx = argmin ds;
                         best_distance = ds ! best_match_idx
                     in if best_distance < tolerance s2 then
                          (Inr \<lparr>success = True,
                                name = Some (all_known_names ! best_match_idx),
                                confidence =
                                  round_double (1 - round_double (best_distance / tolerance s2)),
                                message = RecognizedAs (all_known_names ! best_match_idx),
                                distances = ds\<rparr>, s2)
                        else (Inr (rejected (NotRecognized best_distance) ds), s2))"

subsection \<open>Listing and deletion\<close>

definition get_registered_users :: "engine \<Rightarrow> string list" where
  "get_registered_users s = map fst (known_faces s)"

definition get_user_count :: "engine \<Rightarrow> nat" where
  "get_user_count s = length (known_faces s)"

definition get_user_encoding_count :: "engine \<Rightarrow> string \<Rightarrow> nat" where
  "get_user_encoding_count s user_name =
     (case map_of (known_faces s) user_name of Some es \<Rightarrow> length es | None \<Rightarrow> 0)"

datatype delete_message = UserDeleted string | UserNotFound string

record delete_result =
  del_success :: bool
  del_message :: delete_message

definition delete_user :: "save_io \<Rightarrow> engine \<Rightarrow> string \<Rightarrow> delete_result \<times> engine" where
  "delete_user io s user_name =
     (if has_user (known_faces s) user_name then
        (\<lparr>del_success = True, del_message = UserDeleted user_name\<rparr>,
         save_encodings io (s\<lparr>known_faces := del_entry (known_faces s) user_name\<rparr>))
      else (\<lparr>del_success = False, del_message = UserNotFound user_name\<rparr>, s))"

subsection \<open>The Euclidean distance of exact arithmetic\<close>

text \<open>
  The distance that the specification names, for comparison with what the library
  computes; the engine does not use it.  \<open>rounded_norm\<close> rounds it once: the library's
  value agrees with it wherever the intermediate results of the library are exact.
\<close>

definition euclid :: "embedding \<Rightarrow> embedding \<Rightarrow> real" where
  "euclid a b = sqrt (sum_list (map (\<lambda>(x, y). (x - y)\<^sup>2) (zip a b)))"

definition rounded_norm :: "embedding \<Rightarrow> embedding \<Rightarrow> real" where
  "rounded_norm a b = round_double (euclid a b)"

section \<open>Liveness detector (spoof.py)\<close>

text \<open>
  NumPy divides by zero without raising: a positive float over zero is \<open>inf\<close>, zero over
  zero is \<open>nan\<close>.  An eye aspect ratio is therefore a real, \<open>inf\<close> or \<open>nan\<close>, and a
  comparison with \<open>nan\<close> is false.
\<close>

datatype ear_value = Finite real | Infinite | NotANumber

fun ear_lt :: "ear_value \<Rightarrow> real \<Rightarrow> bool" where
  "ear_lt (Finite x) t = (x < t)"
| "ear_lt Infinite t = False"
| "ear_lt NotANumber t = False"

fun ear_gt :: "ear_value \<Rightarrow> real \<Rightarrow> bool" where
  "ear_gt (Finite x) t = (x > t)"
| "ear_gt Infinite t = True"
| "ear_gt NotANumber t = False"

text \<open>\<open>(a + b) / c\<close> for norms \<open>a + b \<ge> 0\<close> and \<open>c \<ge> 0\<close>.\<close>

definition ear_div :: "real \<Rightarrow> real \<Rightarrow> ear_value" where
  "ear_div a c = (if c \<noteq> 0 then Finite (a / c) else if a = 0 then NotANumber else Infinite)"

text \<open>\<open>(left_ear + right_ear) / 2.0\<close>\<close>

fun ear_avg :: "ear_value \<Rightarrow> ear_value \<Rightarrow> ear_value" where
  "ear_avg (Finite x) (Finite y) = Finite ((x + y) / 2)"
| "ear_avg NotANumber r = NotANumber"
| "ear_avg l NotANumber = NotANumber"
| "ear_avg l r = Infinite"

type_synonym point = "int \<times> int"
type_synonym gray = "nat list"

record landmarks =
  left_eye :: "point list"
  right_eye :: "point list"

text \<open>
  The calls out of the detector: \<open>face_recognition.face_landmarks\<close> (on the frame as
  converted to \<open>uint8\<close>) and \<open>cv2.cvtColor\<close> to a grayscale image, here the list of its
  pixels.  \<open>None\<close> is a raised exception.
\<close>

record 'img vision_lib =
  face_landmarks :: "'img \<Rightarrow> landmarks list option"
  cvt_gray :: "'img \<Rightarrow> gray option"

record liveness_detector =
  blink_threshold :: real
  frame_variation_threshold :: int
  frame_history :: "gray list"
  max_history :: nat
  ear_history :: "ear_value list"
  ear_history_len :: int
  blink_detected :: bool

definition init_detector :: "real \<Rightarrow> int \<Rightarrow> int \<Rightarrow> liveness_detector" where
  "init_detector bt fvt hl =
     \<lparr>blink_threshold = bt, frame_variation_threshold = fvt, frame_history = [],
      max_history = 5, ear_history = [], ear_history_len = hl, blink_detected = False\<rparr>"


definition norm2 :: "point \<Rightarrow> point \<Rightarrow> real" where
  "norm2 p q = sqrt (of_int ((fst p - fst q)\<^sup>2 + (snd p - snd q)\<^sup>2))"

text \<open>Indexing an eye with fewer than six points raises \<open>IndexError\<close>: the value \<open>None\<close>.\<close>

definition compute_eye_aspect_ratio :: "point list \<Rightarrow> ear_value option" where
  "compute_eye_aspect_ratio eye =
     (if length eye < 6 then None
      else
        let A = norm2 (eye ! 1) (eye ! 5);
            B = norm2 (eye ! 2) (eye ! 4);
            C = norm2 (eye ! 0) (eye ! 3)
        in Some (ear_div (A + B) (2 * C)))"

datatype blink_message = NoLandmarks | BlinkDetected | NoBlinkDetected | BlinkError

record blink_result =
  has_blink :: bool
  avg_ear :: ear_value
  blink_message :: blink_message

definition blink_failed :: "blink_message \<Rightarrow> blink_result" where
  "blink_failed msg = \<lparr>has_blink = False, avg_ear = Finite 0, blink_message = msg\<rparr>"

text \<open>The test of the window: some sample below the threshold and the last one above it.\<close>

definition blink_pattern :: "liveness_detector \<Rightarrow> ear_value list \<Rightarrow> bool" where
  "blink_pattern s h =
     (int (length h) = ear_history_len s \<and>
      list_ex (\<lambda>ear. ear_lt ear (blink_threshold s)) h \<and>
      ear_gt (last h) (blink_threshold s))"

definition detect_blink_presence ::
  "'img vision_lib \<Rightarrow> liveness_detector \<Rightarrow> 'img \<Rightarrow> blink_result \<times> liveness_detector" where
  "detect_blink_presence lib s frame_rgb =
     (case face_landmarks lib frame_rgb of
        None \<Rightarrow> (blink_failed BlinkError, s)
      | Some [] \<Rightarrow> (blink_failed NoLandmarks, s)
      | Some (face # others) \<Rightarrow>
          (case compute_eye_aspect_ratio (left_eye face) of
             None \<Rightarrow> (blink_failed BlinkError, s)
           | Some left_ear \<Rightarrow>
               (case compute_eye_aspect_ratio (right_eye face) of
                  None \<Rightarrow> (blink_failed BlinkError, s)
                | Some right_ear \<Rightarrow>
                    let avg = ear_avg left_ear right_ear;
                        h1 = ear_history s @ [avg];
                        h2 = (if int (length h1) > ear_history_len s then tl h1 else h1);
                        b = (if blink_pattern s h2 then True else blink_detected s)
                    in (\<lparr>has_blink = b, avg_ear = avg,
                         blink_message = (if b then BlinkDetected else NoBlinkDetected)\<rparr>,
                        s\<lparr>ear_history := h2, blink_detected := b\<rparr>))))"

text \<open>
  \<open>cv2.absdiff\<close> of two grayscale images; images of different sizes make it raise.
\<close>

definition absdiff :: "gray \<Rightarrow> gray \<Rightarrow> gray option" where
  "absdiff f1 f2 =
     (if length f1 = length f2
      then Some (map (\<lambda>(x, y). if x \<le> y then y - x else x - y) (zip f1 f2))
      else None)"

datatype variation_message = AcquiringBaseline | LiveFace | PossibleSpoof | VariationError

record variation_result =
  is_live :: bool
  variation_score :: nat
  variation_message :: variation_message

definition detect_frame_variation ::
  "'img vision_lib \<Rightarrow> liveness_detector \<Rightarrow> 'img \<Rightarrow> variation_result \<times> liveness_detector" where
  "detect_frame_variation lib s frame_rgb =
     (case cvt_gray lib frame_rgb of
        None \<Rightarrow> (\<lparr>is_live = False, variation_score = 0, variation_message = VariationError\<rparr>, s)
      | Some g \<Rightarrow>
          let h1 = frame_history s @ [g];
              h2 = (if length h1 > max_history s then tl h1 else h1);
              s1 = s\<lparr>frame_history := h2\<rparr>
          in if length h2 < 2 then
               (\<lparr>is_live = True, variation_score = 0, variation_message = AcquiringBaseline\<rparr>, s1)
             else
               (case absdiff (h2 ! (length h2 - 2)) (h2 ! (length h2 - 1)) of
                  None \<Rightarrow>
                    (\<lparr>is_live = False, variation_score = 0,
                      variation_message = VariationError\<rparr>, s1)
                | Some diff \<Rightarrow>
                    let score = sum_list diff;
                        live = (int score > frame_variation_threshold s)
                    in (\<lparr>is_live = live, variation_score = score,
                         variation_message = (if live then LiveFace else PossibleSpoof)\<rparr>, s1)))"

record liveness_result =
  live :: bool
  live_confidence :: real
  live_variation_score :: nat
  live_avg_ear :: ear_value
  live_message :: "variation_message \<times> blink_message"

definition check_liveness ::
  "'img vision_lib \<Rightarrow> liveness_detector \<Rightarrow> 'img \<Rightarrow> liveness_result \<times> liveness_detector" where
  "check_liveness lib s frame_rgb =
     (let (variation_result, s1) = detect_frame_variation lib s frame_rgb;
          (blink_result, s2) = detect_blink_presence lib s1 frame_rgb;
          variation_confidence = min 1 (real (variation_score variation_result) / 5000);
          blink_confidence = (if has_blink blink_result then 1 else 0)
      in (\<lparr>live = (is_live variation_result \<and> has_blink blink_result),
           live_confidence = (variation_confidence + blink_confidence) / 2,
           live_variation_score = variation_score variation_result,
           live_avg_ear = avg_ear blink_result,
           live_message = (variation_message variation_result, blink_message blink_result)\<rparr>,
          s2))"

definition reset :: "liveness_detector \<Rightarrow> liveness_detector" where
  "reset s = s\<lparr>frame_history := [], ear_history := [], blink_detected := False\<rparr>"

text \<open>A session: the frames of the capture loop, each given to \<open>check_liveness\<close> in turn.\<close>

fun feed_frames :: "'img vision_lib \<Rightarrow> liveness_detector \<Rightarrow> 'img list \<Rightarrow> liveness_detector" where
  "feed_frames lib s [] = s"
| "feed_frames lib s (f # fs) = feed_frames lib (snd (check_liveness lib s f)) fs"

text \<open>
  For the proofs: the sample that a frame adds to the window (none when the landmark
  call raises, finds no face, or an eye has too few points), and the bounded push.
\<close>

definition ear_sample :: "'img vision_lib \<Rightarrow> 'img \<Rightarrow> ear_value option" where
  "ear_sample lib frame_rgb =
     (case face_landmarks lib frame_rgb of
        None \<Rightarrow> None
      | Some [] \<Rightarrow> None
      | Some (face # others) \<Rightarrow>
          (case compute_eye_aspect_ratio (left_eye face) of
             None \<Rightarrow> None
           | Some left_ear \<Rightarrow>
               (case compute_eye_aspect_ratio (right_eye face) of
                  None \<Rightarrow> None
                | Some right_ear \<Rightarrow> Some (ear_avg left_ear right_ear))))"

definition push_ear :: "int \<Rightarrow> ear_value list \<Rightarrow> ear_value option \<Rightarrow> ear_value list" where
  "push_ear n h x =
     (case x of
        None \<Rightarrow> h
      | Some v \<Rightarrow> (if int (length (h @ [v])) > n then tl (h @ [v]) else h @ [v]))"

text \<open>The verdicts of a session, frame by frame.\<close>

fun session_verdicts :: "'img vision_lib \<Rightarrow> liveness_detector \<Rightarrow> 'img list \<Rightarrow> bool list" where
  "session_verdicts lib s [] = []"
| "session_verdicts lib s (f # fs) =
     live (fst (check_liveness lib s f)) # session_verdicts lib (snd (check_liveness lib s f)) fs"

text \<open>
  The invariant of the blink flag: a full window with a dip and a recovery has set it.
\<close>

definition blink_inv :: "liveness_detector \<Rightarrow> bool" where
  "blink_inv s = (blink_pattern s (ear_history s) \<longrightarrow> blink_detected s)"

text \<open>
  The invariant of a session whose frames all have the grayscale image \<open>g\<close>: the buffered
  frames are \<open>g\<close>, and before the first buffered frame no blink has been seen.
\<close>

definition static_inv :: "gray option \<Rightarrow> liveness_detector \<Rightarrow> bool" where
  "static_inv g s =
     (2 \<le> max_history s \<and> 0 \<le> frame_variation_threshold s \<and>
      list_all (\<lambda>x. Some x = g) (frame_history s) \<and>
      (g = None \<or> frame_history s \<noteq> [] \<or> (ear_history s = [] \<and> \<not> blink_detected s)))"

section \<open>Attendance database (db.py)\<close>

text \<open>
  The table \<open>attendance\<close>: its rows in insertion order.  Dates and times are the TEXT
  values written by \<open>strftime\<close>; \<open>punch_out\<close> is \<open>None\<close> for SQL NULL.
\<close>

record row =
  row_id :: nat
  row_name :: string
  row_date :: string
  punch_in :: string
  punch_out :: "string option"

type_synonym attendance_db = "row list"

text \<open>Whether the SQLite calls of an operation succeed or raise.\<close>

datatype sql_io = SqlOk | SqlRaises









subsection \<open>Times of day and \<open>julianday\<close>\<close>

text \<open>
  The decimal digit \<open>d < 10\<close> as a character, and back.  \<open>digit_char\<close> is only applied
  to digits: to \<open>n mod 10\<close>, and to \<open>n div 10\<close> for a field of a time of day.
\<close>

definition digit_char :: "nat \<Rightarrow> char" where
  "digit_char d = ''0123456789'' ! d"

definition digit_val :: "char \<Rightarrow> nat option" where
  "digit_val c = (let n = of_char c :: nat in if 48 \<le> n \<and> n \<le> 57 then Some (n - 48) else None)"

text \<open>\<open>strftime("%H:%M:%S")\<close> of a time of day.\<close>

definition two_digits :: "nat \<Rightarrow> string" where
  "two_digits n = [digit_char (n div 10), digit_char (n mod 10)]"

definition strftime_hms :: "nat \<Rightarrow> nat \<Rightarrow> nat \<Rightarrow> string" where
  "strftime_hms h m s = two_digits h @ '':'' @ two_digits m @ '':'' @ two_digits s"

text \<open>
  SQLite reads a text \<open>HH:MM:SS\<close> as that time on 2000-01-01; a text it cannot read gives
  NULL.  Only this format, the one \<open>mark_attendance\<close> writes, is read here.
\<close>

definition parse_two :: "char \<Rightarrow> char \<Rightarrow> nat option" where
  "parse_two a b =
     (case (digit_val a, digit_val b) of (Some x, Some y) \<Rightarrow> Some (10 * x + y) | _ \<Rightarrow> None)"

fun parse_hms :: "string \<Rightarrow> (nat \<times> nat \<times> nat) option" where
  "parse_hms [h1, h2, c1, m1, m2, c2, s1, s2] =
     (if c1 = CHR '':'' \<and> c2 = CHR '':'' then
        (case (parse_two h1 h2, parse_two m1 m2, parse_two s1 s2) of
           (Some h, Some m, Some s) \<Rightarrow>
             (if h \<le> 24 \<and> m \<le> 59 \<and> s \<le> 59 then Some (h, m, s) else None)
         | _ \<Rightarrow> None)
      else None)"
| "parse_hms t = None"

text \<open>
  SQLite keeps the moment as a whole number of milliseconds, \<open>iJD\<close>; midnight of
  2000-01-01 is Julian day 2451544.5, that is 211813444800000 ms.
\<close>

definition iJD :: "nat \<Rightarrow> nat \<Rightarrow> nat \<Rightarrow> int" where
  "iJD h m s = 211813444800000 + 1000 * int (h * 3600 + m * 60 + s)"

text \<open>
  \<open>julianday\<close> returns the double \<open>iJD / 86400000.0\<close>: the quotient rounded to the
  nearest double.  For a time of day the quotient lies between \<open>2^21\<close> and \<open>2^22\<close>, where
  the doubles (53 significant bits) are the multiples of \<open>2^-31\<close>.  No quotient lies
  half-way between two of them, since 86400000 is \<open>2^10\<close> times an odd number.
\<close>

definition round_31 :: "real \<Rightarrow> real" where
  "round_31 x = of_int (round (x * 2 ^ 31)) / 2 ^ 31"

definition julianday :: "string \<Rightarrow> real option" where
  "julianday t =
     (case parse_hms t of
        Some (h, m, s) \<Rightarrow> Some (round_31 (of_int (iJD h m s) / 86400000))
      | None \<Rightarrow> None)"

text \<open>
  The column \<open>hours_worked\<close> of both queries:
  \<open>CASE WHEN punch_out IS NOT NULL THEN (julianday(punch_out) - julianday(punch_in)) * 24
  ELSE NULL END\<close>; arithmetic on NULL is NULL.  The two operations are on doubles and are
  exact here: the difference of two Julian days of 2000-01-01 is \<open>k * 2^-31\<close> with
  \<open>\<bar>k\<bar> < 2^32\<close>, and 24 times it is \<open>3 * k * 2^-28\<close>; both have fewer than 53 bits.
\<close>

definition hours_worked :: "row \<Rightarrow> real option" where
  "hours_worked r =
     (case punch_out r of
        None \<Rightarrow> None
      | Some out \<Rightarrow>
          (case (julianday out, julianday (punch_in r)) of
             (Some jo, Some ji) \<Rightarrow> Some ((jo - ji) * 24)
           | _ \<Rightarrow> None))"

subsection \<open>Monthly query and summary\<close>

text \<open>Python's \<open>f"{n:04d}"\<close> and \<open>f"{n:02d}"\<close>: sign, then zeros up to the width, then digits.\<close>

fun digits_of :: "nat \<Rightarrow> string" where
  "digits_of n = (if n < 10 then [digit_char n] else digits_of (n div 10) @ [digit_char (n mod 10)])"

definition format_d :: "nat \<Rightarrow> int \<Rightarrow> string" where
  "format_d width n =
     (let sign = (if n < 0 then ''-'' else '''');
          ds = digits_of (nat \<bar>n\<bar>)
      in sign @ replicate (width - length sign - length ds) (CHR ''0'') @ ds)"

definition month_start :: "int \<Rightarrow> int \<Rightarrow> string" where
  "month_start year month = format_d 4 year @ ''-'' @ format_d 2 month @ ''-01''"

definition month_end :: "int \<Rightarrow> int \<Rightarrow> string" where
  "month_end year month =
     (if month = 12 then format_d 4 (year + 1) @ ''-01-01''
      else format_d 4 year @ ''-'' @ format_d 2 (month + 1) @ ''-01'')"

text \<open>
  \<open>ORDER BY date DESC, punch_in\<close>, as two stable sorts; TEXT is compared byte by byte.
\<close>

definition order_by_date_desc_punch_in :: "row list \<Rightarrow> row list" where
  "order_by_date_desc_punch_in rs = rev (sort_key row_date (rev (sort_key punch_in rs)))"

text \<open>\<open>WHERE date >= ? AND date < ?\<close> with the two bounds of the month.\<close>

definition in_month :: "int \<Rightarrow> int \<Rightarrow> row \<Rightarrow> bool" where
  "in_month year month r =
     (row_date r \<ge> month_start year month \<and> row_date r < month_end year month)"

text \<open>
  The data frame of the monthly query: the selected rows, each with its \<open>hours_worked\<close>.
  When the query raises, the function returns an empty data frame.
\<close>

definition get_monthly_attendance ::
  "sql_io \<Rightarrow> attendance_db \<Rightarrow> int \<Rightarrow> int \<Rightarrow> (row \<times> real option) list" where
  "get_monthly_attendance io db year month =
     (case io of
        SqlRaises \<Rightarrow> []
      | SqlOk \<Rightarrow>
          map (\<lambda>r. (r, hours_worked r))
            (order_by_date_desc_punch_in (filter (in_month year month) db)))"

record summary =
  total_days_present :: int
  total_hours :: real
  days_with_punch_out :: int
  incomplete_days :: int

definition empty_summary :: summary where
  "empty_summary =
     \<lparr>total_days_present = 0, total_hours = 0, days_with_punch_out = 0, incomplete_days = 0\<rparr>"

text \<open>
  The sum of a pandas column skips the missing values.  The sum itself is read as the
  exact sum of the values of the column.
\<close>

definition sum_skipna :: "real option list \<Rightarrow> real" where
  "sum_skipna xs = sum_list (map (\<lambda>x. case x of Some v \<Rightarrow> v | None \<Rightarrow> 0) xs)"

definition get_user_attendance_summary ::
  "sql_io \<Rightarrow> attendance_db \<Rightarrow> string \<Rightarrow> int \<Rightarrow> int \<Rightarrow> summary" where
  "get_user_attendance_summary io db n year month =
     (let df = get_monthly_attendance io db year month in
      if df = [] then empty_summary
      else
        let user_df = filter (\<lambda>(r, h). row_name r = n) df in
        if user_df = [] then empty_summary
        else
          let total = int (length user_df);
              with_out = int (length (filter (\<lambda>(r, h). punch_out r \<noteq> None) user_df));
              incomplete = total - with_out;
              hours = sum_skipna (map snd user_df)
          in \<lparr>total_days_present = total,
               total_hours = (if hours \<noteq> 0 then hours else 0),
               days_with_punch_out = with_out,
               incomplete_days = incomplete\<rparr>)"

section \<open>Properties of the face recognition engine\<close>

subsection \<open>The nearest stored embedding\<close>

lemma euclid_nonneg: "0 \<le> euclid a b"
  unfolding euclid_def
  by (rule real_sqrt_ge_zero, rule sum_list_nonneg) auto

lemma argmin_less: "xs \<noteq> [] \<Longrightarrow> argmin xs < length xs"
  by (induction xs rule: argmin.induct) (auto simp: Let_def)

lemma argmin_Cons2:
  "argmin (x # y # ys) = (if x \<le> (y # ys) ! argmin (y # ys) then 0 else Suc (argmin (y # ys)))"
  by (simp add: Let_def)

lemma argmin_Min: "xs \<noteq> [] \<Longrightarrow> xs ! argmin xs = Min (set xs)"
proof (induction xs rule: argmin.induct)
  case 1
  then show ?case by simp
next
  case (2 x)
  then show ?case by simp
next
  case (3 x y ys)
  then have ih: "(y # ys) ! argmin (y # ys) = Min (set (y # ys))" by simp
  have m: "Min (set (x # y # ys)) = min x (Min (set (y # ys)))"
    by simp
  show ?case
    unfolding m argmin_Cons2 using ih by (simp add: min_def del: argmin.simps)
qed

lemma argmin_first: "j < argmin xs \<Longrightarrow> xs ! argmin xs < xs ! j"
proof (induction xs arbitrary: j rule: argmin.induct)
  case 1
  then show ?case by simp
next
  case (2 x)
  then show ?case by simp
next
  case (3 x y ys)
  show ?case
  proof (cases "x \<le> (y # ys) ! argmin (y # ys)")
    case True
    with 3 show ?thesis by (simp add: Let_def)
  next
    case False
    then have am: "argmin (x # y # ys) = Suc (argmin (y # ys))" by (simp add: Let_def)
    show ?thesis
    proof (cases j)
      case 0
      then show ?thesis using False am by (simp del: argmin.simps(3))
    next
      case (Suc k)
      then have "k < argmin (y # ys)" using 3(2) am by simp
      then have "(y # ys) ! argmin (y # ys) < (y # ys) ! k" by (rule 3(1))
      then show ?thesis using am Suc by (simp del: argmin.simps(3))
    qed
  qed
qed

subsection \<open>Recognition\<close>

lemma detect_one:
  "face_locations lib img = Some locs \<Longrightarrow> detect_faces lib s img = (locs, s)"
  by (simp add: detect_faces_def)

lemma generate_some:
  "face_encodings lib img loc = Some (e # rest) \<Longrightarrow> generate_encoding lib s img loc = (Some e, s)"
  by (simp add: generate_encoding_def)

lemma recognize_face_scan:
  fixes lib :: "'img face_lib"
  assumes one_face: "face_locations lib img = Some [loc]"
    and enc: "face_encodings lib img loc = Some (probe # rest)"
    and nonempty: "all_known (known_faces s) \<noteq> []"
    and dims: "list_all (\<lambda>e. length e = length probe) (map fst (all_known (known_faces s)))"
  shows "recognize_face lib s img =
    (let ds = map (\<lambda>e. row_norm lib e probe) (map fst (all_known (known_faces s)));
         names = map snd (all_known (known_faces s));
         i = argmin ds
     in if ds ! i < tolerance s
        then (Inr \<lparr>success = True, name = Some (names ! i),
                    confidence = round_double (1 - round_double (ds ! i / tolerance s)),
                    message = RecognizedAs (names ! i), distances = ds\<rparr>, s)
        else (Inr (rejected (NotRecognized (ds ! i)) ds), s))"
proof -
  have g: "known_faces s \<noteq> []" using nonempty by (auto simp: all_known_def)
  have fd: "face_distance lib (map fst (all_known (known_faces s))) probe =
      Inr (map (\<lambda>e. row_norm lib e probe) (map fst (all_known (known_faces s))))"
    using nonempty dims by (simp add: face_distance_def)
  show ?thesis
    using g nonempty
    by (simp add: recognize_face_def detect_one[OF one_face] generate_some[OF enc] fd Let_def)
qed

lemma set_all_known:
  "set (all_known g) = {(e, n). \<exists>es. (n, es) \<in> set g \<and> e \<in> set es}"
  by (auto simp: all_known_def)

text \<open>The values over all stored embeddings are those over the flat list.\<close>

lemma stored_values:
  "{f e | n es e. (n, es) \<in> set g \<and> e \<in> set es} = (\<lambda>(e, n). f e) ` set (all_known g)"
  unfolding set_all_known by (auto simp: image_iff)

subsection \<open>Rounding to doubles\<close>

lemma two_powr_neg: "(2::real) powr - numeral n = 1 / 2 ^ numeral n"
  by (simp add: powr_minus_divide)

lemma round_even_error: "\<bar>of_int (round_even y) - y\<bar> \<le> 1 / 2"
proof -
  have "of_int \<lfloor>y\<rfloor> \<le> y" "y < of_int \<lfloor>y\<rfloor> + 1" by linarith+
  then show ?thesis by (auto simp: round_even_def)
qed

lemma round_even_unique:
  assumes "of_int k - 1 / 2 < y" and "y < of_int k + 1 / 2"
  shows "round_even y = k"
proof -
  have f: "of_int \<lfloor>y\<rfloor> \<le> y" "y < of_int \<lfloor>y\<rfloor> + 1" by linarith+
  have e: "\<bar>of_int (round_even y) - y\<bar> \<le> 1 / 2" by (rule round_even_error)
  have "\<bar>real_of_int (round_even y) - real_of_int k\<bar> < 1" using e assms by linarith
  then have "\<bar>round_even y - k\<bar> < 1" by linarith
  then show ?thesis by linarith
qed

lemma round_even_of_int: "round_even (of_int k) = k"
  by (rule round_even_unique) simp_all

lemma round_even_nonneg: "0 \<le> y \<Longrightarrow> 0 \<le> round_even y"
proof -
  assume "0 \<le> y"
  then have "0 \<le> \<lfloor>y\<rfloor>" by simp
  then show ?thesis by (auto simp: round_even_def)
qed

lemma round_even_le:
  assumes "y \<le> of_int k"
  shows "round_even y \<le> k"
proof (cases "y = of_int k")
  case True
  then show ?thesis by (simp add: round_even_of_int)
next
  case False
  then have "y < of_int k" using assms by simp
  then have "\<lfloor>y\<rfloor> < k" by (simp add: floor_less_iff)
  then show ?thesis by (auto simp: round_even_def)
qed

lemma double_exp_binade:
  assumes "0 < x" and "2 powr of_int e \<le> x" and "x < 2 powr of_int (e + 1)" and "- 1022 \<le> e"
  shows "double_exp x = e - 52"
proof -
  have "\<lfloor>log 2 x\<rfloor> = e"
    using assms floor_log_eq_powr_iff[of x 2 e] by simp
  then show ?thesis using assms by (simp add: double_exp_def)
qed

lemma below_next_binade:
  assumes "0 < x"
  shows "x < 2 powr of_int (double_exp x + 53)"
proof -
  have "x < 2 powr of_int (\<lfloor>log 2 x\<rfloor> + 1)"
    using assms floor_log_eq_powr_iff[of x 2 "\<lfloor>log 2 x\<rfloor>"] by simp
  also have "\<dots> \<le> 2 powr of_int (double_exp x + 53)"
    using assms by (intro powr_mono) (simp_all add: double_exp_def)
  finally show ?thesis .
qed

lemma double_exp_below_one:
  assumes "0 < x" and "x < 1"
  shows "double_exp x \<le> - 53"
proof -
  have "log 2 x < 0" using assms by simp
  then have "\<lfloor>log 2 x\<rfloor> \<le> - 1" by linarith
  then show ?thesis using assms by (simp add: double_exp_def)
qed

lemma round_double_nonneg: "0 \<le> x \<Longrightarrow> 0 \<le> round_double x"
  by (simp add: round_double_def round_even_nonneg)

lemma round_double_error:
  "\<bar>round_double x - x\<bar> \<le> 2 powr of_int (double_exp x) / 2"
proof (cases "x = 0")
  case True
  then show ?thesis by (simp add: round_double_def)
next
  case False
  define u where "u = 2 powr real_of_int (double_exp x)"
  have u: "0 < u" by (simp add: u_def)
  have "\<bar>of_int (round_even (x / u)) - x / u\<bar> \<le> 1 / 2" by (rule round_even_error)
  then have "\<bar>of_int (round_even (x / u)) - x / u\<bar> * u \<le> 1 / 2 * u"
    using u by (intro mult_right_mono) simp_all
  moreover have "\<bar>of_int (round_even (x / u)) - x / u\<bar> * u = \<bar>of_int (round_even (x / u)) * u - x\<bar>"
  proof -
    have "(of_int (round_even (x / u)) - x / u) * u = of_int (round_even (x / u)) * u - x"
      using u by (simp add: field_simps)
    then have "\<bar>of_int (round_even (x / u)) * u - x\<bar> = \<bar>of_int (round_even (x / u)) - x / u\<bar> * \<bar>u\<bar>"
      by (simp only: abs_mult[symmetric])
    then show ?thesis using u by simp
  qed
  ultimately have "\<bar>of_int (round_even (x / u)) * u - x\<bar> \<le> u / 2"
    by linarith
  then show ?thesis
    unfolding round_double_def u_def using False by simp
qed

lemma round_double_representable:
  assumes "0 < x" and "2 powr of_int e \<le> x" and "x < 2 powr of_int (e + 1)" and "- 1022 \<le> e"
    and "x / 2 powr of_int (e - 52) = of_int m"
  shows "round_double x = x"
proof -
  have d: "double_exp x = e - 52" by (rule double_exp_binade[OF assms(1-4)])
  have "of_int m * 2 powr of_int (e - 52) = x"
    using assms(5) by (simp add: field_simps)
  then show ?thesis
    using assms(1,5) by (simp add: round_double_def d round_even_of_int)
qed

lemma round_double_one: "round_double 1 = 1"
  by (rule round_double_representable[of 1 0 "2 ^ 52"]) (simp_all add: two_powr_neg)

lemma round_double_half: "round_double (1 / 2) = 1 / 2"
  by (rule round_double_representable[of "1 / 2" "- 1" "2 ^ 52"]) (simp_all add: two_powr_neg)

lemma round_double_le_one:
  assumes "0 \<le> x" and "x \<le> 1"
  shows "round_double x \<le> 1"
proof -
  consider "x = 0" | "x = 1" | "0 < x" "x < 1" using assms by linarith
  then show ?thesis
  proof cases
    case 1
    then show ?thesis by (simp add: round_double_def)
  next
    case 2
    then show ?thesis by (simp add: round_double_one)
  next
    case 3
    define p where "p = double_exp x"
    define u where "u = 2 powr real_of_int p"
    have u: "0 < u" by (simp add: u_def)
    have p: "p \<le> - 53" unfolding p_def by (rule double_exp_below_one[OF 3])
    have h: "2 powr of_int (p + 53) = 2 ^ 53 * u"
      by (simp add: u_def powr_add)
    have "x < 2 powr of_int (p + 53)" unfolding p_def by (rule below_next_binade[OF 3(1)])
    then have "x < 2 ^ 53 * u" by (simp only: h)
    then have "x / u < 2 ^ 53" using u by (simp add: field_simps)
    then have "x / u \<le> of_int (2 ^ 53)" by simp
    then have "round_even (x / u) \<le> 2 ^ 53" by (rule round_even_le)
    then have "real_of_int (round_even (x / u)) \<le> real_of_int (2 ^ 53)"
      by (simp only: of_int_le_iff)
    then have "real_of_int (round_even (x / u)) \<le> 2 ^ 53" by simp
    then have "of_int (round_even (x / u)) * u \<le> 2 ^ 53 * u"
      using u by (intro mult_right_mono) simp_all
    also have "2 ^ 53 * u = 2 powr of_int (p + 53)"
      by (simp only: h)
    also have "\<dots> \<le> 2 powr 0" using p by (intro powr_mono) simp_all
    finally show ?thesis using 3 by (simp add: round_double_def u_def p_def)
  qed
qed

lemma round_double_error_unit:
  assumes "0 \<le> x" and "x \<le> 1"
  shows "\<bar>round_double x - x\<bar> \<le> 1 / 2 ^ 54"
proof -
  consider "x = 0" | "x = 1" | "0 < x" "x < 1" using assms by linarith
  then show ?thesis
  proof cases
    case 1
    then show ?thesis by (simp add: round_double_def)
  next
    case 2
    then show ?thesis by (simp add: round_double_one)
  next
    case 3
    have p: "double_exp x \<le> - 53" by (rule double_exp_below_one[OF 3])
    have "\<bar>round_double x - x\<bar> \<le> 2 powr of_int (double_exp x) / 2" by (rule round_double_error)
    also have "\<dots> \<le> 2 powr of_int (- 53) / 2"
      using p by (intro divide_right_mono powr_mono) simp_all
    also have "\<dots> = 1 / 2 ^ 54" by (simp add: two_powr_neg)
    finally show ?thesis .
  qed
qed

lemma round_double_sqrt_two: "round_double (sqrt 2) = 6369051672525773 / 2 ^ 52"
proof -
  have pos: "0 < sqrt 2" by simp
  have lo: "2 powr of_int 0 \<le> sqrt 2" by simp
  have "sqrt 2 < 2" by (rule real_less_lsqrt) simp_all
  then have hi: "sqrt 2 < 2 powr of_int (0 + 1)" by simp
  have d: "double_exp (sqrt 2) = 0 - 52"
    by (rule double_exp_binade[OF pos lo hi]) simp
  have l: "(12738103345051545 / 2 ^ 53) < sqrt 2"
    by (rule real_less_rsqrt) (simp add: power2_eq_square)
  have u: "sqrt 2 < (12738103345051547 / 2 ^ 53)"
    by (rule real_less_lsqrt) (simp_all add: power2_eq_square)
  have "round_even (sqrt 2 / 2 powr of_int (0 - 52)) = 6369051672525773"
    using l u by (intro round_even_unique) (simp_all add: two_powr_neg field_simps)
  then show ?thesis
    by (simp add: round_double_def d two_powr_neg)
qed

text \<open>The doubles that Python writes 0.3 and 0.6.\<close>

lemma round_double_binade:
  assumes "0 < x" and "2 powr of_int e \<le> x" and "x < 2 powr of_int (e + 1)" and "- 1022 \<le> e"
    and "round_even (x / 2 powr of_int (e - 52)) = k"
  shows "round_double x = of_int k * 2 powr of_int (e - 52)"
proof -
  have d: "double_exp x = e - 52" by (rule double_exp_binade[OF assms(1-4)])
  show ?thesis using assms(1,5) by (simp add: round_double_def d)
qed

lemma double_three_tenths: "round_double (3 / 10) = 5404319552844595 / 2 ^ 54"
proof -
  have "round_even (3 / 10 / 2 powr of_int (- 2 - 52)) = 5404319552844595"
    by (rule round_even_unique) (simp_all add: two_powr_neg)
  then have "round_double (3 / 10) = of_int 5404319552844595 * 2 powr of_int (- 2 - 52)"
    by (intro round_double_binade) (simp_all add: two_powr_neg)
  then show ?thesis by (simp add: two_powr_neg)
qed

lemma double_six_tenths: "round_double (6 / 10) = 5404319552844595 / 2 ^ 53"
proof -
  have "round_even (6 / 10 / 2 powr of_int (- 1 - 52)) = 5404319552844595"
    by (rule round_even_unique) (simp_all add: two_powr_neg)
  then have "round_double (6 / 10) = of_int 5404319552844595 * 2 powr of_int (- 1 - 52)"
    by (intro round_double_binade) (simp_all add: two_powr_neg)
  then show ?thesis by (simp add: two_powr_neg)
qed

text \<open>
  The confidence of a match: for a distance \<open>0 \<le> d < tol\<close> it lies between 0 and 1 and
  within \<open>2^-53\<close> of \<open>1 - d / tol\<close>.
\<close>

lemma confidence_bounds:
  assumes "0 \<le> d" and "d < tol"
  shows "0 \<le> round_double (1 - round_double (d / tol))"
    and "round_double (1 - round_double (d / tol)) \<le> 1"
    and "\<bar>round_double (1 - round_double (d / tol)) - (1 - d / tol)\<bar> \<le> 1 / 2 ^ 53"
proof -
  have tol: "0 < tol" using assms by linarith
  define q where "q = d / tol"
  have q: "0 \<le> q" "q \<le> 1" using assms tol by (simp_all add: q_def)
  define y where "y = 1 - round_double q"
  have rq: "0 \<le> round_double q" "round_double q \<le> 1"
    using q by (simp_all add: round_double_nonneg round_double_le_one)
  then have y: "0 \<le> y" "y \<le> 1" by (simp_all add: y_def)
  show "0 \<le> round_double (1 - round_double (d / tol))"
    unfolding q_def[symmetric] y_def[symmetric] using y by (simp add: round_double_nonneg)
  show "round_double (1 - round_double (d / tol)) \<le> 1"
    unfolding q_def[symmetric] y_def[symmetric] using y by (simp add: round_double_le_one)
  have e1: "\<bar>round_double q - q\<bar> \<le> 1 / 2 ^ 54" using q by (rule round_double_error_unit)
  have e2: "\<bar>round_double y - y\<bar> \<le> 1 / 2 ^ 54" using y by (rule round_double_error_unit)
  have "\<bar>round_double y - (1 - q)\<bar> \<le> 1 / 2 ^ 54 + 1 / 2 ^ 54"
    using e1 e2 unfolding y_def by linarith
  then show "\<bar>round_double (1 - round_double (d / tol)) - (1 - d / tol)\<bar> \<le> 1 / 2 ^ 53"
    unfolding q_def[symmetric] y_def[symmetric] by simp
qed

subsection \<open>The decision of \<open>recognize_face\<close>\<close>

text \<open>
  Claim C1 as stated fails.  With the gallery \<open>{alice: [[1, 1]]}\<close>, the probe \<open>[0, 0]\<close>
  and the tolerance 1.4142135623730951 (the double \<open>6369051672525773 / 2^52\<close>), the
  Euclidean distance \<open>sqrt 2\<close> is strictly below the tolerance.  The library computes the
  double nearest to \<open>sqrt 2\<close>, every intermediate result being exact here, and that is
  the tolerance itself: the face is not recognized.
\<close>

theorem recognize_face_rounded_distance_counterexample:
  "euclid [1, 1] [0, 0] < 6369051672525773 / 2 ^ 52 \<and>
   rounded_norm [1, 1] [0, 0] = 6369051672525773 / 2 ^ 52 \<and>
   recognize_face
     \<lparr>face_locations = \<lambda>i::unit. Some [(0, 1, 1, 0)], face_encodings = \<lambda>i l. Some [[0, 0]],
      row_norm = rounded_norm\<rparr>
     \<lparr>known_faces = [(''alice'', [[1, 1]])], tolerance = 6369051672525773 / 2 ^ 52,
       disk = None, ui_log = []\<rparr> ()
   = (Inr (rejected (NotRecognized (6369051672525773 / 2 ^ 52)) [6369051672525773 / 2 ^ 52]),
      \<lparr>known_faces = [(''alice'', [[1, 1]])], tolerance = 6369051672525773 / 2 ^ 52,
        disk = None, ui_log = []\<rparr>)"
proof -
  have e: "euclid [1, 1] [0, 0] = sqrt 2" by (simp add: euclid_def)
  have below: "sqrt 2 < 6369051672525773 / 2 ^ 52"
    by (rule real_less_lsqrt) (simp_all add: power2_eq_square)
  have n: "rounded_norm [1, 1] [0, 0] = 6369051672525773 / 2 ^ 52"
    unfolding rounded_norm_def e by (rule round_double_sqrt_two)
  have below': "sqrt 2 * 4503599627370496 < 6369051672525773"
    using below by simp
  show ?thesis
    by (simp add: e below' n recognize_face_def detect_faces_def generate_encoding_def
        all_known_def face_distance_def Let_def)
qed

text \<open>
  Claim C1, amended.  For an image with one detected face that the library encodes as
  \<open>probe\<close>, and a gallery with at least one stored embedding (all of the probe's
  dimension, with norms that are not negative), \<open>recognize_face\<close> succeeds exactly when
  the least of the distances that the library computes, over all stored embeddings of
  all identities, is strictly below the tolerance.  On success the returned name owns an
  embedding at that least distance, and the confidence is the double value of
  \<open>1 - distance / tolerance\<close>: it lies between 0 and 1, so \<open>max 0\<close> leaves it as it is,
  and it is within \<open>2^-53\<close> of \<open>max 0 (1 - distance / tolerance)\<close>.  On rejection there is
  no name and the confidence is 0.  The decision reads the distance only, and it agrees
  with the Euclidean distance of exact arithmetic outside the rounding error of the
  library: if every computed distance is within \<open>\<delta>\<close> of the Euclidean one, a least
  Euclidean distance below \<open>tolerance - \<delta>\<close> is accepted and an accepted one is below
  \<open>tolerance + \<delta>\<close>.  Second conjunct, the scenario of the specification: with the
  gallery \<open>{alice: [v1]}\<close>, the tolerance 0.6 and a computed distance 0.3 (the doubles
  \<open>5404319552844595 / 2^53\<close> and \<open>5404319552844595 / 2^54\<close>), the result is a success
  for alice with confidence exactly 0.5.
\<close>

theorem recognize_face_accepts_iff_computed_distance_below_tolerance:
  fixes lib :: "'img face_lib"
  assumes one_face: "face_locations lib img = Some [loc]"
    and enc: "face_encodings lib img loc = Some (probe # rest)"
  shows
    "((\<exists>(n, es) \<in> set (known_faces s). es \<noteq> []) \<and>
      (\<forall>(n, es) \<in> set (known_faces s). \<forall>e \<in> set es.
         length e = length probe \<and> 0 \<le> row_norm lib e probe) \<longrightarrow>
      (\<exists>r. recognize_face lib s img = (Inr r, s) \<and>
        (success r \<longleftrightarrow>
           Min {row_norm lib e probe | n es e. (n, es) \<in> set (known_faces s) \<and> e \<in> set es}
             < tolerance s) \<and>
        (success r \<longrightarrow>
           (\<exists>(n, es) \<in> set (known_faces s). \<exists>e \<in> set es.
              name r = Some n \<and>
              row_norm lib e probe =
                Min {row_norm lib e probe | n es e. (n, es) \<in> set (known_faces s) \<and> e \<in> set es}) \<and>
           confidence r =
             max 0 (round_double (1 - round_double
               (Min {row_norm lib e probe | n es e. (n, es) \<in> set (known_faces s) \<and> e \<in> set es}
                  / tolerance s))) \<and>
           confidence r \<le> 1 \<and>
           \<bar>confidence r -
              max 0 (1 - Min {row_norm lib e probe | n es e.
                                (n, es) \<in> set (known_faces s) \<and> e \<in> set es} / tolerance s)\<bar>
             \<le> 1 / 2 ^ 53) \<and>
        (\<not> success r \<longrightarrow> name r = None \<and> confidence r = 0) \<and>
        ((\<forall>(n, es) \<in> set (known_faces s). \<forall>e \<in> set es.
            \<bar>row_norm lib e probe - euclid e probe\<bar> \<le> \<delta>) \<longrightarrow>
         (Min {euclid e probe | n es e. (n, es) \<in> set (known_faces s) \<and> e \<in> set es} + \<delta>
            < tolerance s \<longrightarrow> success r) \<and>
         (success r \<longrightarrow>
            Min {euclid e probe | n es e. (n, es) \<in> set (known_faces s) \<and> e \<in> set es} - \<delta>
              < tolerance s)))) \<and>
     (known_faces t = [(''alice'', [v1])] \<and> tolerance t = 5404319552844595 / 2 ^ 53 \<and>
      length v1 = length probe \<and> row_norm lib v1 probe = 5404319552844595 / 2 ^ 54 \<longrightarrow>
      (\<exists>r. recognize_face lib t img = (Inr r, t) \<and>
        success r \<and> name r = Some ''alice'' \<and> confidence r = 1 / 2))"
proof (intro conjI impI, goal_cases)
  case 1
  note h = 1
  define ak where "ak = all_known (known_faces s)"
  define ds where "ds = map (\<lambda>e. row_norm lib e probe) (map fst ak)"
  define i where "i = argmin ds"
  define m where
    "m = Min {row_norm lib e probe | n es e. (n, es) \<in> set (known_faces s) \<and> e \<in> set es}"
  define m' where
    "m' = Min {euclid e probe | n es e. (n, es) \<in> set (known_faces s) \<and> e \<in> set es}"
  have akset: "set ak = {(e, n). \<exists>es. (n, es) \<in> set (known_faces s) \<and> e \<in> set es}"
    unfolding ak_def by (rule set_all_known)
  have nonempty: "ak \<noteq> []"
  proof -
    from conjunct1[OF h] obtain n es where "(n, es) \<in> set (known_faces s)" "es \<noteq> []"
      by auto
    moreover from this obtain e where "e \<in> set es" by (cases es) auto
    ultimately have "(e, n) \<in> set ak" unfolding akset by blast
    then show ?thesis by auto
  qed
  have stored: "length e = length probe \<and> 0 \<le> row_norm lib e probe"
    if "(e, n) \<in> set ak" for e n
  proof -
    from that obtain es where "(n, es) \<in> set (known_faces s)" "e \<in> set es"
      unfolding akset by blast
    then show ?thesis using conjunct2[OF h] by blast
  qed
  have dims: "list_all (\<lambda>e. length e = length probe) (map fst ak)"
    unfolding list_all_iff using stored by auto
  have nonneg: "\<forall>x \<in> set ak. 0 \<le> row_norm lib (fst x) probe"
    using stored by auto
  have ne: "ds \<noteq> []" using nonempty by (simp add: ds_def)
  have il: "i < length ak" using argmin_less[OF ne] by (simp add: i_def ds_def)
  have dsi: "ds ! i = row_norm lib (fst (ak ! i)) probe" using il by (simp add: ds_def)
  have setds: "set ds = (\<lambda>(e, n). row_norm lib e probe) ` set ak"
    by (force simp: ds_def image_iff split: prod.splits)
  have mset: "m = Min (set ds)"
    unfolding m_def stored_values ak_def[symmetric] by (simp add: setds)
  have mn: "ds ! i = m"
    using argmin_Min[OF ne] by (simp add: i_def mset)
  have mem: "ak ! i \<in> set ak" using il by simp
  have pos: "0 \<le> m" unfolding mn[symmetric] dsi using nonneg mem by blast
  have own: "\<exists>(n, es) \<in> set (known_faces s). \<exists>e \<in> set es.
      Some (map snd ak ! i) = Some n \<and> row_norm lib e probe = m"
  proof -
    obtain e n where en: "ak ! i = (e, n)" by (cases "ak ! i")
    then have "(e, n) \<in> set ak" using mem by simp
    then obtain es where "(n, es) \<in> set (known_faces s)" "e \<in> set es"
      unfolding akset by blast
    moreover have "map snd ak ! i = n" using il en by simp
    moreover have "row_norm lib e probe = m" using mn dsi en by simp
    ultimately show ?thesis by blast
  qed
  define r0 where "r0 =
      (if m < tolerance s
        then \<lparr>success = True, name = Some (map snd ak ! i),
               confidence = round_double (1 - round_double (m / tolerance s)),
               message = RecognizedAs (map snd ak ! i), distances = ds\<rparr>
        else rejected (NotRecognized m) ds)"
  have run: "recognize_face lib s img = (Inr r0, s)"
    using recognize_face_scan[OF one_face enc nonempty[unfolded ak_def] dims[unfolded ak_def]]
    unfolding mn[symmetric] r0_def
    by (simp add: Let_def ak_def ds_def i_def)
  have acc: "success r0 \<longleftrightarrow> m < tolerance s"
    by (simp add: r0_def rejected_def)
  have onrej: "\<not> success r0 \<longrightarrow> name r0 = None \<and> confidence r0 = 0"
    by (simp add: r0_def rejected_def)
  have onacc: "success r0 \<longrightarrow>
      (\<exists>(n, es) \<in> set (known_faces s). \<exists>e \<in> set es.
          name r0 = Some n \<and> row_norm lib e probe = m) \<and>
      confidence r0 = max 0 (round_double (1 - round_double (m / tolerance s))) \<and>
      confidence r0 \<le> 1 \<and>
      \<bar>confidence r0 - max 0 (1 - m / tolerance s)\<bar> \<le> 1 / 2 ^ 53"
  proof (cases "m < tolerance s")
    case True
    then have tpos: "0 < tolerance s" using pos by linarith
    have q1: "m / tolerance s < 1" using True tpos by simp
    have c0: "0 \<le> round_double (1 - round_double (m / tolerance s))"
      and c1: "round_double (1 - round_double (m / tolerance s)) \<le> 1"
      and ce: "\<bar>round_double (1 - round_double (m / tolerance s)) - (1 - m / tolerance s)\<bar>
                 \<le> 1 / 2 ^ 53"
      using confidence_bounds[OF pos True] by blast+
    have mx: "max 0 (1 - m / tolerance s) = 1 - m / tolerance s" using q1 by simp
    have nm: "name r0 = Some (map snd ak ! i)"
      and cf: "confidence r0 = round_double (1 - round_double (m / tolerance s))"
      using True by (simp_all add: r0_def)
    show ?thesis unfolding mx nm cf using own c0 c1 ce by simp
  next
    case False
    then show ?thesis using acc by simp
  qed
  have link: "(\<forall>(n, es) \<in> set (known_faces s). \<forall>e \<in> set es.
        \<bar>row_norm lib e probe - euclid e probe\<bar> \<le> \<delta>) \<longrightarrow>
      (m' + \<delta> < tolerance s \<longrightarrow> success r0) \<and> (success r0 \<longrightarrow> m' - \<delta> < tolerance s)"
  proof
    assume close: "\<forall>(n, es) \<in> set (known_faces s). \<forall>e \<in> set es.
        \<bar>row_norm lib e probe - euclid e probe\<bar> \<le> \<delta>"
    have cl: "\<bar>row_norm lib (fst x) probe - euclid (fst x) probe\<bar> \<le> \<delta>" if "x \<in> set ak" for x
    proof -
      obtain e n where x: "x = (e, n)" by (cases x)
      with that obtain es where "(n, es) \<in> set (known_faces s)" "e \<in> set es"
        unfolding akset by blast
      then show ?thesis using close x by auto
    qed
    define E where "E = (\<lambda>x. euclid (fst x) probe) ` set ak"
    define D where "D = (\<lambda>x. row_norm lib (fst x) probe) ` set ak"
    have m'E: "m' = Min E"
      unfolding m'_def E_def stored_values ak_def[symmetric] by (simp add: case_prod_unfold)
    have mD: "m = Min D" unfolding mset setds D_def by (simp add: case_prod_unfold)
    have fin: "finite E" "E \<noteq> {}" "finite D" "D \<noteq> {}"
      using nonempty by (simp_all add: E_def D_def)
    have "Min E \<in> E" using fin by (intro Min_in)
    then obtain x where x: "x \<in> set ak" "m' = euclid (fst x) probe"
      unfolding m'E E_def by auto
    have "row_norm lib (fst x) probe \<in> D" using x(1) unfolding D_def by simp
    then have "m \<le> row_norm lib (fst x) probe" unfolding mD using fin by (intro Min_le)
    then have up: "m \<le> m' + \<delta>" using cl[OF x(1)] x(2) by linarith
    have "euclid (fst (ak ! i)) probe \<in> E" using mem unfolding E_def by simp
    then have "m' \<le> euclid (fst (ak ! i)) probe" unfolding m'E using fin by (intro Min_le)
    then have down: "m' - \<delta> \<le> m" using cl[OF mem] mn dsi by linarith
    show "(m' + \<delta> < tolerance s \<longrightarrow> success r0) \<and> (success r0 \<longrightarrow> m' - \<delta> < tolerance s)"
      unfolding acc using up down by linarith
  qed
  show ?case
    unfolding m_def[symmetric] m'_def[symmetric]
    using run acc onacc onrej link by blast
next
  case 2
  note a = 2
  have ak: "all_known (known_faces t) = [(v1, ''alice'')]" using a by (simp add: all_known_def)
  have ne: "all_known (known_faces t) \<noteq> []" by (simp add: ak)
  have dm: "list_all (\<lambda>e. length e = length probe) (map fst (all_known (known_faces t)))"
    unfolding ak using a by simp
  have tol: "tolerance t = 5404319552844595 / 2 ^ 53"
    and dist: "row_norm lib v1 probe = 5404319552844595 / 2 ^ 54" using a by simp_all
  have q: "row_norm lib v1 probe / tolerance t = 1 / 2"
    unfolding tol dist by simp
  have lt: "row_norm lib v1 probe < tolerance t"
    unfolding tol dist by simp
  have c: "round_double (1 - round_double (1 / 2)) = 1 / 2"
    by (simp add: round_double_half)
  have "recognize_face lib t img =
      (Inr \<lparr>success = True, name = Some ''alice'', confidence = 1 / 2,
            message = RecognizedAs ''alice'', distances = [row_norm lib v1 probe]\<rparr>, t)"
    unfolding recognize_face_scan[OF one_face enc ne dm] ak
    by (simp add: Let_def q lt c)
  then show ?case by simp
qed

text \<open>
  Two instances with the probe \<open>[0, 0]\<close> and a library whose norms are the rounded
  Euclidean distances.  In the first, bob's embeddings are at the distances 5 and 10 and
  alice's at 2 and 1: with the tolerance 3 the nearest embedding is the last one stored,
  the name is alice, and the confidence is the double 0.6666666666666667
  (\<open>6004799503160662 / 2^53\<close>), not \<open>2 / 3\<close>: the quotient \<open>1 / 3\<close> is rounded down, and
  the difference lies halfway between two doubles and goes to the even one.  The second
  is the scenario of the specification, with \<open>v1\<close> at the distance 0.3 from the probe.
\<close>

theorem recognize_face_accepts_iff_computed_distance_below_tolerance_witness:
  "face_locations
     \<lparr>face_locations = \<lambda>i::unit. Some [(0, 1, 1, 0)], face_encodings = \<lambda>i l. Some [[0, 0]],
      row_norm = rounded_norm\<rparr> () = Some [(0, 1, 1, 0)] \<and>
   face_encodings
     \<lparr>face_locations = \<lambda>i::unit. Some [(0, 1, 1, 0)], face_encodings = \<lambda>i l. Some [[0, 0]],
      row_norm = rounded_norm\<rparr> () (0, 1, 1, 0) = Some [[0, 0]] \<and>
   Min {rounded_norm e [0, 0] | n es e.
          (n, es) \<in> set [(''bob'', [[5, 0], [10, 0]]), (''alice'', [[2, 0], [1, 0]])] \<and>
          e \<in> set es} = 1 \<and>
   (\<exists>r. recognize_face
           \<lparr>face_locations = \<lambda>i::unit. Some [(0, 1, 1, 0)], face_encodings = \<lambda>i l. Some [[0, 0]],
            row_norm = rounded_norm\<rparr>
           \<lparr>known_faces = [(''bob'', [[5, 0], [10, 0]]), (''alice'', [[2, 0], [1, 0]])],
             tolerance = 3, disk = None, ui_log = []\<rparr> ()
         = (Inr r, \<lparr>known_faces = [(''bob'', [[5, 0], [10, 0]]), (''alice'', [[2, 0], [1, 0]])],
                     tolerance = 3, disk = None, ui_log = []\<rparr>) \<and>
        success r \<and> name r = Some ''alice'' \<and> confidence r = 6004799503160662 / 2 ^ 53) \<and>
   rounded_norm [5404319552844595 / 2 ^ 54, 0] [0, 0] = 5404319552844595 / 2 ^ 54 \<and>
   (\<exists>r. recognize_face
           \<lparr>face_locations = \<lambda>i::unit. Some [(0, 1, 1, 0)], face_encodings = \<lambda>i l. Some [[0, 0]],
            row_norm = rounded_norm\<rparr>
           \<lparr>known_faces = [(''alice'', [[5404319552844595 / 2 ^ 54, 0]])],
             tolerance = 5404319552844595 / 2 ^ 53, disk = None, ui_log = []\<rparr> ()
         = (Inr r, \<lparr>known_faces = [(''alice'', [[5404319552844595 / 2 ^ 54, 0]])],
                     tolerance = 5404319552844595 / 2 ^ 53, disk = None, ui_log = []\<rparr>) \<and>
        success r \<and> name r = Some ''alice'' \<and> confidence r = 1 / 2)"
proof -
  let ?lib = "\<lparr>face_locations = \<lambda>i::unit. Some [(0, 1, 1, 0)],
               face_encodings = \<lambda>i l. Some [[0, 0]], row_norm = rounded_norm\<rparr>"
  let ?g = "[(''bob'', [[5, 0], [10, 0]]), (''alice'', [[2, 0], [1, 0]])]"
  let ?s = "\<lparr>known_faces = ?g, tolerance = 3, disk = None, ui_log = []\<rparr>"
  let ?v = "[5404319552844595 / 2 ^ 54, 0] :: embedding"
  let ?t = "\<lparr>known_faces = [(''alice'', [?v])], tolerance = 5404319552844595 / 2 ^ 53,
             disk = None, ui_log = []\<rparr>"
  let ?M = "Min {rounded_norm e [0, 0] | n es e. (n, es) \<in> set ?g \<and> e \<in> set es}"
  have axis: "rounded_norm [x, 0] [0, 0] = round_double \<bar>x\<bar>" for x
    by (simp add: rounded_norm_def euclid_def)
  have r1: "round_double 1 = 1" by (rule round_double_one)
  have r2: "round_double 2 = 2"
    by (rule round_double_representable[of 2 1 "2 ^ 52"]) (simp_all add: two_powr_neg)
  have r5: "round_double 5 = 5"
    by (rule round_double_representable[of 5 2 "5 * 2 ^ 50"]) (simp_all add: two_powr_neg)
  have r10: "round_double 10 = 10"
    by (rule round_double_representable[of 10 3 "10 * 2 ^ 49"]) (simp_all add: two_powr_neg)
  have rv: "round_double (5404319552844595 / 2 ^ 54) = 5404319552844595 / 2 ^ 54"
    by (rule round_double_representable[of _ "- 2" 5404319552844595])
      (simp_all add: two_powr_neg)
  have n1: "rounded_norm [1, 0] [0, 0] = 1" and n2: "rounded_norm [2, 0] [0, 0] = 2"
    and n5: "rounded_norm [5, 0] [0, 0] = 5" and n10: "rounded_norm [10, 0] [0, 0] = 10"
    by (simp_all add: axis r1 r2 r5 r10)
  have nv: "rounded_norm ?v [0, 0] = 5404319552844595 / 2 ^ 54"
    using rv by (simp add: axis)
  have stored: "{rounded_norm e [0, 0] | n es e. (n, es) \<in> set ?g \<and> e \<in> set es}
      = {5, 10, 2, 1}"
    using stored_values[of "\<lambda>e. rounded_norm e [0, 0]" ?g]
    by (simp add: all_known_def n1 n2 n5 n10)
  have least: "?M = 1" unfolding stored by simp
  have third: "round_double (1 / 3) = 6004799503160661 / 2 ^ 54"
  proof -
    have "round_even (1 / 3 / 2 powr of_int (- 2 - 52)) = 6004799503160661"
      by (rule round_even_unique) (simp_all add: two_powr_neg)
    then have "round_double (1 / 3) = of_int 6004799503160661 * 2 powr of_int (- 2 - 52)"
      by (intro round_double_binade) (simp_all add: two_powr_neg)
    then show ?thesis by (simp add: two_powr_neg)
  qed
  have tie: "round_double (1 - 6004799503160661 / 2 ^ 54) = 6004799503160662 / 2 ^ 53"
  proof -
    have "round_even (12009599006321323 / 2) = 6004799503160662"
      by (simp add: round_even_def)
    then have "round_even ((1 - 6004799503160661 / 2 ^ 54) / 2 powr of_int (- 1 - 52))
        = 6004799503160662"
      by (simp add: two_powr_neg)
    then have "round_double (1 - 6004799503160661 / 2 ^ 54)
        = of_int 6004799503160662 * 2 powr of_int (- 1 - 52)"
      by (intro round_double_binade) (simp_all add: two_powr_neg)
    then show ?thesis by (simp add: two_powr_neg)
  qed
  have conf: "round_double (1 - round_double (1 / 3)) = 6004799503160662 / 2 ^ 53"
    unfolding third by (rule tie)
  have h1: "face_locations ?lib () = Some [(0, 1, 1, 0)]" by simp
  have h2: "face_encodings ?lib () (0, 1, 1, 0) = Some ([0, 0] # [])" by simp
  note inst = recognize_face_accepts_iff_computed_distance_below_tolerance
    [OF h1 h2, of ?s 0 ?t ?v]
  have some: "\<exists>(n, es) \<in> set (known_faces ?s). es \<noteq> []" by simp
  have all: "\<forall>(n, es) \<in> set (known_faces ?s). \<forall>e \<in> set es.
      length e = length [0, 0 :: real] \<and> 0 \<le> row_norm ?lib e [0, 0]"
    by (simp add: n1 n2 n5 n10)
  have M: "Min {row_norm ?lib e [0, 0] | n es e. (n, es) \<in> set (known_faces ?s) \<and> e \<in> set es}
      = 1"
    using least by simp
  from conjunct1[OF inst, rule_format, OF conjI[OF some all]] obtain r where
    r: "recognize_face ?lib ?s () = (Inr r, ?s)"
    and acc: "success r \<longleftrightarrow> 1 < tolerance ?s"
    and onacc: "success r \<longrightarrow>
      (\<exists>(n, es) \<in> set (known_faces ?s). \<exists>e \<in> set es.
          name r = Some n \<and> row_norm ?lib e [0, 0] = 1) \<and>
      confidence r = max 0 (round_double (1 - round_double (1 / tolerance ?s)))"
    unfolding M by blast
  have ok: "success r" using acc by simp
  have "name r = Some ''alice''"
    using onacc ok by (auto simp: n1 n2 n5 n10)
  moreover have "confidence r = 6004799503160662 / 2 ^ 53"
    using onacc ok by (simp add: conf)
  ultimately have first: "\<exists>r. recognize_face ?lib ?s () = (Inr r, ?s) \<and> success r \<and>
      name r = Some ''alice'' \<and> confidence r = 6004799503160662 / 2 ^ 53"
    using r ok by blast
  have sc: "known_faces ?t = [(''alice'', [?v])] \<and> tolerance ?t = 5404319552844595 / 2 ^ 53 \<and>
      length ?v = length [0, 0 :: real] \<and> row_norm ?lib ?v [0, 0] = 5404319552844595 / 2 ^ 54"
    using nv by simp
  have second: "\<exists>r. recognize_face ?lib ?t () = (Inr r, ?t) \<and> success r \<and>
      name r = Some ''alice'' \<and> confidence r = 1 / 2"
    by (rule conjunct2[OF inst, rule_format, OF sc])
  show ?thesis
    using h1 least first nv second by simp
qed

text \<open>
  Claim C5.  For an image with exactly one detected face and an empty gallery,
  \<open>recognize_face\<close> returns the "no registered users" result, never the "not
  recognized" one.  No distance is computed: the list of distances is empty, and the
  result does not depend on what the encoding call of the library would do (the engine
  state, including the error log, is returned as it was).
\<close>

theorem recognize_face_empty_gallery:
  fixes lib :: "'img face_lib"
  assumes one_face: "face_locations lib img = Some [loc]"
    and empty: "known_faces s = []"
  shows "\<exists>r. recognize_face lib s img = (Inr r, s) \<and>
           message r = NoRegisteredUsers \<and> \<not> success r \<and> name r = None \<and>
           distances r = [] \<and> (\<forall>d. message r \<noteq> NotRecognized d)"
  using empty by (simp add: recognize_face_def detect_one[OF one_face] rejected_def)

text \<open>
  An instance in which the encoding call would raise: it is never reached.
\<close>

theorem recognize_face_empty_gallery_witness:
  "face_locations \<lparr>face_locations = \<lambda>i::unit. Some [(0, 1, 1, 0)],
                   face_encodings = \<lambda>i l. None,
                   row_norm = rounded_norm\<rparr> () = Some [(0, 1, 1, 0)] \<and>
   known_faces \<lparr>known_faces = [], tolerance = 6 / 10, disk = None, ui_log = []\<rparr> = [] \<and>
   (\<exists>r. recognize_face \<lparr>face_locations = \<lambda>i::unit. Some [(0, 1, 1, 0)],
                          face_encodings = \<lambda>i l. None,
                          row_norm = rounded_norm\<rparr>
           \<lparr>known_faces = [], tolerance = 6 / 10, disk = None, ui_log = []\<rparr> ()
         = (Inr r, \<lparr>known_faces = [], tolerance = 6 / 10, disk = None, ui_log = []\<rparr>) \<and>
        message r = NoRegisteredUsers \<and> \<not> success r \<and> name r = None \<and> distances r = [])"
proof -
  let ?lib = "\<lparr>face_locations = \<lambda>i::unit. Some [(0, 1, 1, 0)],
               face_encodings = \<lambda>i l. None,
               row_norm = rounded_norm\<rparr>"
  let ?s = "\<lparr>known_faces = [], tolerance = 6 / 10, disk = None, ui_log = []\<rparr>"
  have h1: "face_locations ?lib () = Some [(0, 1, 1, 0)]" by simp
  have h2: "known_faces ?s = []" by simp
  show ?thesis
    using recognize_face_empty_gallery[OF h1 h2] by auto
qed

lemma detect_faces_frame:
  "known_faces (snd (detect_faces lib s img)) = known_faces s \<and>
   disk (snd (detect_faces lib s img)) = disk s \<and>
   tolerance (snd (detect_faces lib s img)) = tolerance s"
  by (simp add: detect_faces_def split: option.splits)

lemma generate_encoding_frame:
  "known_faces (snd (generate_encoding lib s img loc)) = known_faces s \<and>
   disk (snd (generate_encoding lib s img loc)) = disk s \<and>
   tolerance (snd (generate_encoding lib s img loc)) = tolerance s"
  by (simp add: generate_encoding_def split: option.splits)

lemma recognize_face_state:
  "snd (recognize_face lib s img) = snd (detect_faces lib s img) \<or>
   snd (recognize_face lib s img) =
     snd (generate_encoding lib (snd (detect_faces lib s img)) img
            (hd (fst (detect_faces lib s img))))"
  by (simp add: recognize_face_def Let_def split: prod.splits option.splits sum.splits)

text \<open>
  Claim C10.  Whatever \<open>recognize_face\<close> returns (any of its results, or the exception
  of the distance computation), the gallery, the file on disk and the tolerance of the
  engine after the call are those before it.
\<close>

theorem recognize_face_leaves_gallery_unchanged:
  "known_faces (snd (recognize_face lib s img)) = known_faces s \<and>
   disk (snd (recognize_face lib s img)) = disk s \<and>
   tolerance (snd (recognize_face lib s img)) = tolerance s"
  using recognize_face_state[of lib s img] detect_faces_frame[of lib s img]
    generate_encoding_frame[of lib "snd (detect_faces lib s img)" img
      "hd (fst (detect_faces lib s img))"]
  by auto

subsection \<open>Enrollment and deletion\<close>

lemma register_face_one_face:
  fixes lib :: "'img face_lib"
  assumes one_face: "face_locations lib img = Some [loc]"
    and enc: "face_encodings lib img loc = Some (e # rest)"
  shows "register_face lib io s img u =
     (\<lparr>reg_success = True,
       reg_message = (if has_user (known_faces s) u then RegAddedScan u else RegRegistered u),
       reg_encoding = Some e\<rparr>,
      save_encodings io
        (s\<lparr>known_faces := (if has_user (known_faces s) u
                             then append_encoding (known_faces s) u e
                             else new_entry (known_faces s) u e)\<rparr>))"
  by (simp add: register_face_def detect_one[OF one_face] generate_some[OF enc])

text \<open>
  Claim C6 as stated fails.  With an empty gallery, one detected face and a failing
  save, \<open>register_face\<close> reports success and the gallery holds the new encoding.
\<close>

theorem register_face_save_failure_counterexample:
  "reg_success (fst (register_face
      \<lparr>face_locations = \<lambda>i::unit. Some [(0, 1, 1, 0)], face_encodings = \<lambda>i l. Some [[1, 2]],
       row_norm = rounded_norm\<rparr>
      (WriteFailed None)
      \<lparr>known_faces = [], tolerance = 6 / 10, disk = None, ui_log = []\<rparr> () ''bob'')) \<and>
   known_faces (snd (register_face
      \<lparr>face_locations = \<lambda>i::unit. Some [(0, 1, 1, 0)], face_encodings = \<lambda>i l. Some [[1, 2]],
       row_norm = rounded_norm\<rparr>
      (WriteFailed None)
      \<lparr>known_faces = [], tolerance = 6 / 10, disk = None, ui_log = []\<rparr> () ''bob''))
     = [(''bob'', [[1, 2]])] \<and>
   known_faces (snd (register_face
      \<lparr>face_locations = \<lambda>i::unit. Some [(0, 1, 1, 0)], face_encodings = \<lambda>i l. Some [[1, 2]],
       row_norm = rounded_norm\<rparr>
      (WriteFailed None)
      \<lparr>known_faces = [], tolerance = 6 / 10, disk = None, ui_log = []\<rparr> () ''bob''))
     \<noteq> known_faces \<lparr>known_faces = [], tolerance = 6 / 10, disk = None, ui_log = []\<rparr>"
  by (simp add: register_face_def detect_faces_def generate_encoding_def has_user_def
      new_entry_def save_encodings_def)

text \<open>
  Claim C6, amended.  For an image with one detected and encoded face, when the save
  fails \<open>register_face\<close> still returns success with the encoding, the in-memory
  gallery holds the new encoding (appended to the user's list, or as a new entry), and
  the failure is reported only as an error message of the user interface; the file is
  left as the failed write left it.
\<close>

theorem register_face_save_failure_keeps_encoding:
  fixes lib :: "'img face_lib"
  assumes one_face: "face_locations lib img = Some [loc]"
    and enc: "face_encodings lib img loc = Some (e # rest)"
  shows "register_face lib (WriteFailed d) s img u =
     (\<lparr>reg_success = True,
       reg_message = (if has_user (known_faces s) u then RegAddedScan u else RegRegistered u),
       reg_encoding = Some e\<rparr>,
      s\<lparr>known_faces := (if has_user (known_faces s) u
                          then append_encoding (known_faces s) u e
                          else new_entry (known_faces s) u e),
        disk := d,
        ui_log := ui_log s @ [ErrorSavingEncodings]\<rparr>)"
  by (simp add: register_face_one_face[OF one_face enc] save_encodings_def)

text \<open>
  An instance: a second scan for an enrolled user, with a failing save.
\<close>

theorem register_face_save_failure_keeps_encoding_witness:
  "face_locations \<lparr>face_locations = \<lambda>i::unit. Some [(0, 1, 1, 0)],
                   face_encodings = \<lambda>i l. Some [[1, 2]],
                   row_norm = rounded_norm\<rparr> () = Some [(0, 1, 1, 0)] \<and>
   face_encodings \<lparr>face_locations = \<lambda>i::unit. Some [(0, 1, 1, 0)],
                   face_encodings = \<lambda>i l. Some [[1, 2]],
                   row_norm = rounded_norm\<rparr> () (0, 1, 1, 0) = Some ([1, 2] # []) \<and>
   register_face
      \<lparr>face_locations = \<lambda>i::unit. Some [(0, 1, 1, 0)], face_encodings = \<lambda>i l. Some [[1, 2]],
       row_norm = rounded_norm\<rparr>
      (WriteFailed (Some [(''ann'', [[0, 0]])]))
      \<lparr>known_faces = [(''ann'', [[0, 0]])], tolerance = 6 / 10,
        disk = Some [(''ann'', [[0, 0]])], ui_log = []\<rparr> () ''ann''
    = (\<lparr>reg_success = True, reg_message = RegAddedScan ''ann'', reg_encoding = Some [1, 2]\<rparr>,
       \<lparr>known_faces = [(''ann'', [[0, 0], [1, 2]])], tolerance = 6 / 10,
         disk = Some [(''ann'', [[0, 0]])], ui_log = [ErrorSavingEncodings]\<rparr>)"
proof -
  let ?lib = "\<lparr>face_locations = \<lambda>i::unit. Some [(0, 1, 1, 0)],
               face_encodings = \<lambda>i l. Some [[1, 2 :: real]],
               row_norm = rounded_norm\<rparr>"
  have h1: "face_locations ?lib () = Some [(0, 1, 1, 0)]" by simp
  have h2: "face_encodings ?lib () (0, 1, 1, 0) = Some ([1, 2] # [])" by simp
  show ?thesis
    using register_face_save_failure_keeps_encoding[OF h1 h2,
        of "Some [(''ann'', [[0, 0]])]"
           "\<lparr>known_faces = [(''ann'', [[0, 0]])], tolerance = 6 / 10,
             disk = Some [(''ann'', [[0, 0]])], ui_log = []\<rparr>" "''ann''"]
    by (simp add: has_user_def append_encoding_def)
qed

lemma map_of_fresh: "\<not> has_user g u \<Longrightarrow> map_of g u = None"
  by (simp add: has_user_def map_of_eq_None_iff)

lemma has_user_new_entry: "has_user (new_entry g u e) u"
  by (simp add: has_user_def new_entry_def)

lemma append_after_new:
  "\<not> has_user g u \<Longrightarrow> append_encoding (g @ [(u, es)]) u e = g @ [(u, es @ [e])]"
  by (induction g) (auto simp: append_encoding_def has_user_def)

lemma del_after_new: "\<not> has_user g u \<Longrightarrow> del_entry (g @ [(u, es)]) u = g"
  by (induction g) (auto simp: del_entry_def has_user_def)

lemma map_of_snoc_fresh: "\<not> has_user g u \<Longrightarrow> map_of (g @ [(u, es)]) u = Some es"
  by (simp add: map_of_fresh map_add_def)

lemma save_encodings_known: "known_faces (save_encodings io s) = known_faces s"
  by (simp add: save_encodings_def split: save_io.splits)

text \<open>
  Claim C7.  For a user \<open>u\<close> absent from the gallery and two images each with one
  detected and encoded face: the first \<open>register_face\<close> creates the entry of \<open>u\<close>
  with one embedding, the second appends (count 2, both embeddings kept in order), and
  \<open>delete_user\<close> then removes the entry with all its embeddings (count 0, \<open>u\<close>
  absent from the listing), which gives back the starting gallery.  This holds whatever
  the three saves do.
\<close>

theorem enroll_twice_then_delete:
  fixes lib :: "'img face_lib"
  assumes fresh: "\<not> has_user (known_faces s) u"
    and f1: "face_locations lib img1 = Some [loc1]"
    and e1: "face_encodings lib img1 loc1 = Some (enc1 # rest1)"
    and f2: "face_locations lib img2 = Some [loc2]"
    and e2: "face_encodings lib img2 loc2 = Some (enc2 # rest2)"
  shows "\<exists>r1 s1 r2 s2 r3 s3.
      register_face lib io1 s img1 u = (r1, s1) \<and>
      register_face lib io2 s1 img2 u = (r2, s2) \<and>
      delete_user io3 s2 u = (r3, s3) \<and>
      reg_success r1 \<and> reg_message r1 = RegRegistered u \<and>
      known_faces s1 = known_faces s @ [(u, [enc1])] \<and>
      get_user_encoding_count s1 u = 1 \<and> u \<in> set (get_registered_users s1) \<and>
      reg_success r2 \<and> reg_message r2 = RegAddedScan u \<and>
      known_faces s2 = known_faces s @ [(u, [enc1, enc2])] \<and>
      get_user_encoding_count s2 u = 2 \<and>
      del_success r3 \<and>
      get_user_encoding_count s3 u = 0 \<and> u \<notin> set (get_registered_users s3) \<and>
      known_faces s3 = known_faces s"
proof -
  define s1 where "s1 = save_encodings io1 (s\<lparr>known_faces := known_faces s @ [(u, [enc1])]\<rparr>)"
  define s2 where "s2 = save_encodings io2 (s1\<lparr>known_faces := known_faces s @ [(u, [enc1, enc2])]\<rparr>)"
  define s3 where "s3 = save_encodings io3 (s2\<lparr>known_faces := known_faces s\<rparr>)"
  have k1: "known_faces s1 = known_faces s @ [(u, [enc1])]"
    by (simp add: s1_def save_encodings_known)
  have k2: "known_faces s2 = known_faces s @ [(u, [enc1, enc2])]"
    by (simp add: s2_def save_encodings_known)
  have k3: "known_faces s3 = known_faces s"
    by (simp add: s3_def save_encodings_known)
  have h1: "has_user (known_faces s1) u" by (simp add: k1 has_user_def)
  have h2: "has_user (known_faces s2) u" by (simp add: k2 has_user_def)
  have r1: "register_face lib io1 s img1 u =
      (\<lparr>reg_success = True, reg_message = RegRegistered u, reg_encoding = Some enc1\<rparr>, s1)"
    using fresh by (simp add: register_face_one_face[OF f1 e1] s1_def new_entry_def)
  have r2: "register_face lib io2 s1 img2 u =
      (\<lparr>reg_success = True, reg_message = RegAddedScan u, reg_encoding = Some enc2\<rparr>, s2)"
    using h1 append_after_new[OF fresh, of "[enc1]" enc2]
    by (simp add: register_face_one_face[OF f2 e2] s2_def k1)
  have r3: "delete_user io3 s2 u = (\<lparr>del_success = True, del_message = UserDeleted u\<rparr>, s3)"
    using h2 del_after_new[OF fresh, of "[enc1, enc2]"]
    by (simp add: delete_user_def s3_def k2)
  have c1: "get_user_encoding_count s1 u = 1"
    unfolding get_user_encoding_count_def k1 map_of_snoc_fresh[OF fresh] by simp
  have c2: "get_user_encoding_count s2 u = 2"
    unfolding get_user_encoding_count_def k2 map_of_snoc_fresh[OF fresh] by simp
  have c3: "get_user_encoding_count s3 u = 0"
    by (simp add: get_user_encoding_count_def k3 map_of_fresh[OF fresh])
  have l1: "u \<in> set (get_registered_users s1)" by (simp add: get_registered_users_def k1)
  have l3: "u \<notin> set (get_registered_users s3)"
    using fresh by (simp add: get_registered_users_def k3 has_user_def)
  show ?thesis
    using r1 r2 r3 k1 k2 k3 c1 c2 c3 l1 l3 by simp
qed

text \<open>
  An instance: enrolling bob twice next to ann, then deleting bob.
\<close>

theorem enroll_twice_then_delete_witness:
  "\<not> has_user (known_faces \<lparr>known_faces = [(''ann'', [[0, 0]])], tolerance = 6 / 10,
                                disk = None, ui_log = []\<rparr>) ''bob'' \<and>
   face_locations \<lparr>face_locations = \<lambda>i::nat. Some [(0, 1, 1, 0)],
                   face_encodings = \<lambda>i l. Some [[real i, 2]],
                   row_norm = rounded_norm\<rparr> 1 = Some [(0, 1, 1, 0)] \<and>
   face_encodings \<lparr>face_locations = \<lambda>i::nat. Some [(0, 1, 1, 0)],
                   face_encodings = \<lambda>i l. Some [[real i, 2]],
                   row_norm = rounded_norm\<rparr> 1 (0, 1, 1, 0)
     = Some ([real 1, 2] # []) \<and>
   face_encodings \<lparr>face_locations = \<lambda>i::nat. Some [(0, 1, 1, 0)],
                   face_encodings = \<lambda>i l. Some [[real i, 2]],
                   row_norm = rounded_norm\<rparr> 5 (0, 1, 1, 0)
     = Some ([real 5, 2] # []) \<and>
   (\<exists>r1 s1 r2 s2 r3 s3.
      register_face \<lparr>face_locations = \<lambda>i::nat. Some [(0, 1, 1, 0)],
                     face_encodings = \<lambda>i l. Some [[real i, 2]],
                     row_norm = rounded_norm\<rparr> Written
        \<lparr>known_faces = [(''ann'', [[0, 0]])], tolerance = 6 / 10, disk = None, ui_log = []\<rparr>
        1 ''bob'' = (r1, s1) \<and>
      register_face \<lparr>face_locations = \<lambda>i::nat. Some [(0, 1, 1, 0)],
                     face_encodings = \<lambda>i l. Some [[real i, 2]],
                     row_norm = rounded_norm\<rparr> Written s1 5 ''bob''
        = (r2, s2) \<and>
      delete_user Written s2 ''bob'' = (r3, s3) \<and>
      get_user_encoding_count s1 ''bob'' = 1 \<and>
      known_faces s2 = [(''ann'', [[0, 0]]), (''bob'', [[real 1, 2], [real 5, 2]])] \<and>
      get_user_encoding_count s2 ''bob'' = 2 \<and>
      del_success r3 \<and> get_user_encoding_count s3 ''bob'' = 0 \<and>
      ''bob'' \<notin> set (get_registered_users s3) \<and>
      known_faces s3 = [(''ann'', [[0, 0]])])"
proof -
  let ?lib = "\<lparr>face_locations = \<lambda>i::nat. Some [(0, 1, 1, 0)],
               face_encodings = \<lambda>i l. Some [[real i, 2]],
               row_norm = rounded_norm\<rparr>"
  let ?s = "\<lparr>known_faces = [(''ann'', [[0, 0]])], tolerance = 6 / 10, disk = None,
             ui_log = []\<rparr>"
  have fresh: "\<not> has_user (known_faces ?s) ''bob''" by (simp add: has_user_def)
  have f1: "face_locations ?lib 1 = Some [(0, 1, 1, 0)]" by simp
  have e1: "face_encodings ?lib 1 (0, 1, 1, 0) = Some ([real 1, 2] # [])" by simp
  have f2: "face_locations ?lib 5 = Some [(0, 1, 1, 0)]" by simp
  have e2: "face_encodings ?lib 5 (0, 1, 1, 0) = Some ([real 5, 2] # [])" by simp
  from enroll_twice_then_delete[OF fresh f1 e1 f2 e2, of Written Written Written]
  obtain r1 s1 r2 s2 r3 s3 where
      a: "register_face ?lib Written ?s 1 ''bob'' = (r1, s1)"
        "register_face ?lib Written s1 5 ''bob'' = (r2, s2)"
        "delete_user Written s2 ''bob'' = (r3, s3)"
        "get_user_encoding_count s1 ''bob'' = 1"
        "known_faces s2 = known_faces ?s @ [(''bob'', [real 1, 2] # [[real 5, 2]])]"
        "get_user_encoding_count s2 ''bob'' = 2"
        "del_success r3" "get_user_encoding_count s3 ''bob'' = 0"
        "''bob'' \<notin> set (get_registered_users s3)"
        "known_faces s3 = known_faces ?s"
    by blast
  have "\<exists>r1 s1 r2 s2 r3 s3.
      register_face ?lib Written ?s 1 ''bob'' = (r1, s1) \<and>
      register_face ?lib Written s1 5 ''bob'' = (r2, s2) \<and>
      delete_user Written s2 ''bob'' = (r3, s3) \<and>
      get_user_encoding_count s1 ''bob'' = 1 \<and>
      known_faces s2 = [(''ann'', [[0, 0]]), (''bob'', [[real 1, 2], [real 5, 2]])] \<and>
      get_user_encoding_count s2 ''bob'' = 2 \<and>
      del_success r3 \<and> get_user_encoding_count s3 ''bob'' = 0 \<and>
      ''bob'' \<notin> set (get_registered_users s3) \<and>
      known_faces s3 = [(''ann'', [[0, 0]])]"
    using a by (intro exI[of _ r1] exI[of _ s1] exI[of _ r2] exI[of _ s2] exI[of _ r3] exI[of _ s3])
      simp
  then show ?thesis using fresh f1 e1 e2 by blast
qed

section \<open>Properties of the liveness detector\<close>

subsection \<open>The blink flag\<close>

lemma ear_single_no_pattern: "\<not> (ear_lt e t \<and> ear_gt e t)"
  by (cases e) auto

lemma blink_pattern_short: "length h \<le> 1 \<Longrightarrow> \<not> blink_pattern s h"
proof (cases h)
  case Nil
  then show ?thesis by (simp add: blink_pattern_def)
next
  case (Cons e es)
  assume "length h \<le> 1"
  with Cons have "h = [e]" by simp
  then show ?thesis using ear_single_no_pattern[of e] by (simp add: blink_pattern_def)
qed

lemma detect_blink_presence_cases:
  "detect_blink_presence lib s f = (blink_failed BlinkError, s) \<or>
   detect_blink_presence lib s f = (blink_failed NoLandmarks, s) \<or>
   (\<exists>avg h2. h2 = (if int (length (ear_history s @ [avg])) > ear_history_len s
                     then tl (ear_history s @ [avg]) else ear_history s @ [avg]) \<and>
      detect_blink_presence lib s f =
        (\<lparr>has_blink = (blink_pattern s h2 \<or> blink_detected s), avg_ear = avg,
          blink_message = (if blink_pattern s h2 \<or> blink_detected s
                           then BlinkDetected else NoBlinkDetected)\<rparr>,
         s\<lparr>ear_history := h2, blink_detected := (blink_pattern s h2 \<or> blink_detected s)\<rparr>))"
  by (auto simp: detect_blink_presence_def Let_def split: option.splits list.splits)

lemma blink_pattern_cong:
  "ear_history_len s' = ear_history_len s \<Longrightarrow> blink_threshold s' = blink_threshold s \<Longrightarrow>
   blink_pattern s' h = blink_pattern s h"
  by (simp add: blink_pattern_def)

lemma detect_blink_presence_params:
  "ear_history_len (snd (detect_blink_presence lib s f)) = ear_history_len s \<and>
   blink_threshold (snd (detect_blink_presence lib s f)) = blink_threshold s \<and>
   frame_history (snd (detect_blink_presence lib s f)) = frame_history s \<and>
   max_history (snd (detect_blink_presence lib s f)) = max_history s \<and>
   frame_variation_threshold (snd (detect_blink_presence lib s f)) = frame_variation_threshold s"
  using detect_blink_presence_cases[of lib s f] by auto

lemma detect_blink_presence_mono:
  "blink_detected s \<Longrightarrow> blink_detected (snd (detect_blink_presence lib s f))"
  using detect_blink_presence_cases[of lib s f] by auto

lemma detect_blink_presence_inv:
  assumes "blink_inv s"
  shows "blink_inv (snd (detect_blink_presence lib s f))"
  using detect_blink_presence_cases[of lib s f] assms
  by (auto simp: blink_inv_def blink_failed_def blink_pattern_def)

lemma detect_frame_variation_blink:
  "ear_history (snd (detect_frame_variation lib s f)) = ear_history s \<and>
   blink_detected (snd (detect_frame_variation lib s f)) = blink_detected s \<and>
   ear_history_len (snd (detect_frame_variation lib s f)) = ear_history_len s \<and>
   blink_threshold (snd (detect_frame_variation lib s f)) = blink_threshold s \<and>
   max_history (snd (detect_frame_variation lib s f)) = max_history s \<and>
   frame_variation_threshold (snd (detect_frame_variation lib s f)) = frame_variation_threshold s"
  by (simp add: detect_frame_variation_def Let_def split: option.splits)

lemma check_liveness_snd:
  "snd (check_liveness lib s f) =
     snd (detect_blink_presence lib (snd (detect_frame_variation lib s f)) f)"
  by (simp add: check_liveness_def Let_def split: prod.splits)

lemma check_liveness_live:
  "live (fst (check_liveness lib s f)) =
     (is_live (fst (detect_frame_variation lib s f)) \<and>
      has_blink (fst (detect_blink_presence lib (snd (detect_frame_variation lib s f)) f)))"
  by (simp add: check_liveness_def Let_def split: prod.splits)

lemma check_liveness_mono:
  "blink_detected s \<Longrightarrow> blink_detected (snd (check_liveness lib s f))"
  unfolding check_liveness_snd
  by (rule detect_blink_presence_mono) (simp add: detect_frame_variation_blink)

lemma check_liveness_inv: "blink_inv s \<Longrightarrow> blink_inv (snd (check_liveness lib s f))"
  unfolding check_liveness_snd
  by (rule detect_blink_presence_inv)
     (simp add: blink_inv_def blink_pattern_def detect_frame_variation_blink)

lemma feed_frames_mono: "blink_detected s \<Longrightarrow> blink_detected (feed_frames lib s fs)"
  by (induction fs arbitrary: s) (auto intro: check_liveness_mono)

lemma feed_frames_inv: "blink_inv s \<Longrightarrow> blink_inv (feed_frames lib s fs)"
  by (induction fs arbitrary: s) (auto intro: check_liveness_inv)



subsection \<open>The window of samples\<close>

lemma detect_blink_presence_history:
  "ear_history (snd (detect_blink_presence lib s f)) =
     push_ear (ear_history_len s) (ear_history s) (ear_sample lib f)"
  by (simp add: detect_blink_presence_def ear_sample_def push_ear_def Let_def
      split: option.splits list.splits)

lemma check_liveness_history:
  "ear_history (snd (check_liveness lib s f)) =
     push_ear (ear_history_len s) (ear_history s) (ear_sample lib f)"
  by (simp add: check_liveness_snd detect_blink_presence_history detect_frame_variation_blink)

lemma check_liveness_params:
  "ear_history_len (snd (check_liveness lib s f)) = ear_history_len s \<and>
   blink_threshold (snd (check_liveness lib s f)) = blink_threshold s"
  by (simp add: check_liveness_snd detect_blink_presence_params detect_frame_variation_blink)

lemma feed_frames_params:
  "ear_history_len (feed_frames lib s fs) = ear_history_len s \<and>
   blink_threshold (feed_frames lib s fs) = blink_threshold s"
  by (induction fs arbitrary: s) (simp_all add: check_liveness_params)

lemma feed_frames_history:
  "ear_history (feed_frames lib s fs) =
     foldl (push_ear (ear_history_len s)) (ear_history s) (map (ear_sample lib) fs)"
  by (induction fs arbitrary: s) (simp_all add: check_liveness_params check_liveness_history)

subsection \<open>Sessions of one grayscale image\<close>

lemma absdiff_same: "absdiff g g = Some (replicate (length g) 0)"
  by (induction g) (auto simp: absdiff_def)

lemma sum_replicate_0: "sum_list (replicate n (0::nat)) = 0"
  by (induction n) auto

lemma no_blink_on_first_sample:
  assumes "ear_history s = []" and "\<not> blink_detected s"
  shows "\<not> has_blink (fst (detect_blink_presence lib s f))"
proof -
  have "\<not> blink_pattern s (if int (length (ear_history s @ [avg])) > ear_history_len s
                             then tl (ear_history s @ [avg]) else ear_history s @ [avg])"
    for avg :: ear_value
    by (rule blink_pattern_short) (simp add: assms)
  then show ?thesis
    using detect_blink_presence_cases[of lib s f] assms(2)
    by (auto simp: blink_failed_def)
qed

lemma variation_none:
  "cvt_gray lib f = None \<Longrightarrow>
   \<not> is_live (fst (detect_frame_variation lib s f)) \<and>
   frame_history (snd (detect_frame_variation lib s f)) = frame_history s"
  by (simp add: detect_frame_variation_def)

lemma variation_first:
  assumes "cvt_gray lib f = Some g" and "frame_history s = []" and "2 \<le> max_history s"
  shows "frame_history (snd (detect_frame_variation lib s f)) = [g]"
  using assms by (simp add: detect_frame_variation_def Let_def)

lemma variation_static:
  assumes g: "cvt_gray lib f = Some g"
    and ne: "frame_history s \<noteq> []"
    and same: "list_all (\<lambda>x. x = g) (frame_history s)"
    and mh: "2 \<le> max_history s"
    and thr: "0 \<le> frame_variation_threshold s"
  shows "\<not> is_live (fst (detect_frame_variation lib s f)) \<and>
         frame_history (snd (detect_frame_variation lib s f)) \<noteq> [] \<and>
         list_all (\<lambda>x. x = g) (frame_history (snd (detect_frame_variation lib s f)))"
proof -
  define h1 where "h1 = frame_history s @ [g]"
  define h2 where "h2 = (if length h1 > max_history s then tl h1 else h1)"
  have l1: "2 \<le> length h1" using ne by (cases "frame_history s") (auto simp: h1_def)
  have a1: "list_all (\<lambda>x. x = g) h1" using same by (simp add: h1_def)
  have l2: "2 \<le> length h2" using l1 mh by (auto simp: h2_def)
  have a2: "list_all (\<lambda>x. x = g) h2"
    using a1 by (cases h1) (auto simp: h2_def)
  have n1: "h2 ! (length h2 - 2) = g" using a2 l2 by (simp add: list_all_length)
  have n2: "h2 ! (length h2 - Suc 0) = g" using a2 l2 by (simp add: list_all_length)
  have "detect_frame_variation lib s f =
      (\<lparr>is_live = False, variation_score = 0, variation_message = PossibleSpoof\<rparr>,
       s\<lparr>frame_history := h2\<rparr>)"
    using g l2 thr
    by (simp add: detect_frame_variation_def Let_def h1_def[symmetric] h2_def[symmetric]
        n1 n2 absdiff_same sum_replicate_0)
  then show ?thesis using l2 a2 by auto
qed

lemma static_step:
  assumes inv: "static_inv g s" and gray: "cvt_gray lib f = g"
  shows "\<not> live (fst (check_liveness lib s f)) \<and> static_inv g (snd (check_liveness lib s f))"
proof (cases g)
  case None
  then show ?thesis
    using inv gray variation_none[of lib f s]
    by (simp add: check_liveness_live check_liveness_snd static_inv_def
        detect_blink_presence_params detect_frame_variation_blink)
next
  case (Some img)
  have same: "list_all (\<lambda>x. x = img) (frame_history s)"
    using inv Some by (auto simp: static_inv_def list_all_iff)
  have mh: "2 \<le> max_history s" and thr: "0 \<le> frame_variation_threshold s"
    using inv by (simp_all add: static_inv_def)
  have g': "cvt_gray lib f = Some img" using gray Some by simp
  show ?thesis
  proof (cases "frame_history s = []")
    case True
    then have fresh: "ear_history s = []" "\<not> blink_detected s"
      using inv Some by (auto simp: static_inv_def)
    have fh: "frame_history (snd (detect_frame_variation lib s f)) = [img]"
      by (rule variation_first[OF g' True mh])
    have nb: "\<not> has_blink (fst (detect_blink_presence lib (snd (detect_frame_variation lib s f)) f))"
      by (rule no_blink_on_first_sample) (simp_all add: detect_frame_variation_blink fresh)
    show ?thesis
      using nb fh mh thr Some
      by (simp add: check_liveness_live check_liveness_snd static_inv_def
          detect_blink_presence_params detect_frame_variation_blink)
  next
    case False
    from variation_static[OF g' False same mh thr]
    show ?thesis
      using mh thr Some
      by (simp add: check_liveness_live check_liveness_snd static_inv_def
          detect_blink_presence_params detect_frame_variation_blink list_all_iff)
  qed
qed

lemma static_session:
  "static_inv g s \<Longrightarrow> \<forall>f\<in>set fs. cvt_gray lib f = g \<Longrightarrow>
   True \<notin> set (session_verdicts lib s fs)"
proof (induction fs arbitrary: s)
  case Nil
  then show ?case by simp
next
  case (Cons f fs)
  have st: "\<not> live (fst (check_liveness lib s f)) \<and> static_inv g (snd (check_liveness lib s f))"
    using Cons.prems by (intro static_step) simp_all
  then have "True \<notin> set (session_verdicts lib (snd (check_liveness lib s f)) fs)"
    using Cons.IH Cons.prems by simp
  then show ?case using st by simp
qed

text \<open>
  Claim C4.  In a fresh session (a new detector, or any detector after \<open>reset\<close>) with a
  variation threshold that is not negative, frames that all have the same grayscale
  image never get the verdict \<open>is_live = True\<close> from \<open>check_liveness\<close>, whatever
  landmarks, and so whatever eye aspect ratios, the frames carry.
\<close>

theorem identical_frames_never_live:
  fixes lib :: "'img vision_lib"
  assumes same_gray: "\<forall>f\<in>set fs. cvt_gray lib f = g"
  shows "(0 \<le> fvt \<longrightarrow> True \<notin> set (session_verdicts lib (init_detector bt fvt hl) fs)) \<and>
         (max_history s = 5 \<and> 0 \<le> frame_variation_threshold s \<longrightarrow>
            True \<notin> set (session_verdicts lib (reset s) fs))"
proof (intro conjI impI)
  assume "0 \<le> fvt"
  then have "static_inv g (init_detector bt fvt hl)"
    by (simp add: static_inv_def init_detector_def)
  then show "True \<notin> set (session_verdicts lib (init_detector bt fvt hl) fs)"
    using same_gray by (rule static_session)
next
  assume "max_history s = 5 \<and> 0 \<le> frame_variation_threshold s"
  then have "static_inv g (reset s)"
    by (simp add: static_inv_def reset_def)
  then show "True \<notin> set (session_verdicts lib (reset s) fs)"
    using same_gray by (rule static_session)
qed

subsection \<open>Two concrete sessions\<close>

lemma sqrt4: "sqrt 4 = 2"
  using real_sqrt_abs[of 2] by simp

lemma sqrt16: "sqrt 16 = 4"
  using real_sqrt_abs[of 4] by simp


text \<open>
  Twelve frames with one grayscale image whose eyes close once and reopen: the blink is
  seen, and still no frame is live.
\<close>

theorem identical_frames_never_live_witness:
  "cvt_gray \<lparr>face_landmarks = \<lambda>b. Some [\<lparr>left_eye = [(0, 0), (1, if b then 1 else 0), (3, if b then 1 else 0), (4, 0), (3, if b then - 1 else 0), (1, if b then - 1 else 0)],
                                          right_eye = [(0, 0), (1, if b then 1 else 0), (3, if b then 1 else 0), (4, 0), (3, if b then - 1 else 0), (1, if b then - 1 else 0)]\<rparr>],
              cvt_gray = \<lambda>b. Some [10, 20]\<rparr> True = Some [10, 20] \<and>
   cvt_gray \<lparr>face_landmarks = \<lambda>b. Some [\<lparr>left_eye = [(0, 0), (1, if b then 1 else 0), (3, if b then 1 else 0), (4, 0), (3, if b then - 1 else 0), (1, if b then - 1 else 0)],
                                          right_eye = [(0, 0), (1, if b then 1 else 0), (3, if b then 1 else 0), (4, 0), (3, if b then - 1 else 0), (1, if b then - 1 else 0)]\<rparr>],
              cvt_gray = \<lambda>b. Some [10, 20]\<rparr> False = Some [10, 20] \<and>
   (0::int) \<le> 500 \<and>
   True \<notin> set (session_verdicts
        \<lparr>face_landmarks = \<lambda>b. Some [\<lparr>left_eye = [(0, 0), (1, if b then 1 else 0), (3, if b then 1 else 0), (4, 0), (3, if b then - 1 else 0), (1, if b then - 1 else 0)],
                                      right_eye = [(0, 0), (1, if b then 1 else 0), (3, if b then 1 else 0), (4, 0), (3, if b then - 1 else 0), (1, if b then - 1 else 0)]\<rparr>],
          cvt_gray = \<lambda>b. Some [10, 20]\<rparr>
        (init_detector (25 / 100) 500 10)
        [False, True, True, True, True, True, True, True, True, True, True, True]) \<and>
   blink_detected (feed_frames
        \<lparr>face_landmarks = \<lambda>b. Some [\<lparr>left_eye = [(0, 0), (1, if b then 1 else 0), (3, if b then 1 else 0), (4, 0), (3, if b then - 1 else 0), (1, if b then - 1 else 0)],
                                      right_eye = [(0, 0), (1, if b then 1 else 0), (3, if b then 1 else 0), (4, 0), (3, if b then - 1 else 0), (1, if b then - 1 else 0)]\<rparr>],
          cvt_gray = \<lambda>b. Some [10, 20]\<rparr>
        (init_detector (25 / 100) 500 10)
        [False, True, True, True, True, True, True, True, True, True, True, True])"
proof -
  let ?eye = "\<lambda>b::bool. [(0, 0), (1, if b then 1 else 0), (3, if b then 1 else 0), (4, 0),
                          (3, if b then - 1 else 0), (1, if b then - 1 else 0 :: int)] :: point list"
  let ?lib = "\<lparr>face_landmarks = \<lambda>b. Some [\<lparr>left_eye = ?eye b, right_eye = ?eye b\<rparr>],
               cvt_gray = \<lambda>b::bool. Some [10, 20 :: nat]\<rparr>"
  let ?fs = "[False, True, True, True, True, True, True, True, True, True, True, True]"
  let ?s0 = "init_detector (25 / 100) 500 10"
  have same: "\<forall>f\<in>set ?fs. cvt_gray ?lib f = Some [10, 20]" by simp
  have never: "True \<notin> set (session_verdicts ?lib ?s0 ?fs)"
    using identical_frames_never_live[OF same, of 500 "25 / 100" 10 ?s0] by simp
  have op: "compute_eye_aspect_ratio (?eye True) = Some (Finite (1 / 2))"
    by (simp add: compute_eye_aspect_ratio_def norm2_def ear_div_def sqrt4 sqrt16)
  have cl: "compute_eye_aspect_ratio (?eye False) = Some (Finite 0)"
    by (simp add: compute_eye_aspect_ratio_def norm2_def ear_div_def sqrt16)
  have smp: "ear_sample ?lib b = Some (if b then Finite (1 / 2) else Finite 0)" for b
    using op cl by (cases b) (simp_all add: ear_sample_def)
  let ?s10 = "feed_frames ?lib ?s0 [False, True, True, True, True, True, True, True, True, True]"
  have eh: "ear_history ?s10 =
      [Finite 0, Finite (1 / 2), Finite (1 / 2), Finite (1 / 2), Finite (1 / 2), Finite (1 / 2),
       Finite (1 / 2), Finite (1 / 2), Finite (1 / 2), Finite (1 / 2)]"
    unfolding feed_frames_history
    by (simp add: smp push_ear_def init_detector_def)
  have "blink_pattern ?s10 (ear_history ?s10)"
    unfolding eh
    by (simp add: blink_pattern_def feed_frames_params init_detector_def del: feed_frames.simps)
  moreover have "blink_inv ?s10"
    by (rule feed_frames_inv) (simp add: blink_inv_def blink_pattern_def init_detector_def)
  ultimately have "blink_detected ?s10" by (simp add: blink_inv_def del: feed_frames.simps)
  then have "blink_detected (feed_frames ?lib ?s10 [True, True])" by (rule feed_frames_mono)
  then have seen: "blink_detected (feed_frames ?lib ?s0 ?fs)" by simp
  show ?thesis using never seen by simp
qed

section \<open>Properties of the attendance database\<close>

subsection \<open>Punch-in, punch-out, refusal\<close>









subsection \<open>Hours worked\<close>

lemma digit_val_digit_char:
  assumes "d < 10"
  shows "digit_val (digit_char d) = Some d"
proof -
  have "d = 0 \<or> d = 1 \<or> d = 2 \<or> d = 3 \<or> d = 4 \<or> d = 5 \<or> d = 6 \<or> d = 7 \<or> d = 8 \<or> d = 9"
    using assms by arith
  then show ?thesis
    by (elim disjE) (simp_all add: digit_val_def digit_char_def)
qed

lemma parse_two_digits:
  "n < 100 \<Longrightarrow> parse_two (digit_char (n div 10)) (digit_char (n mod 10)) = Some n"
  by (simp add: parse_two_def digit_val_digit_char)

lemma parse_strftime:
  assumes "h < 24" "m < 60" "s < 60"
  shows "parse_hms (strftime_hms h m s) = Some (h, m, s)"
  using assms by (simp add: strftime_hms_def two_digits_def parse_two_digits)

lemma julianday_strftime:
  assumes "h < 24" "m < 60" "s < 60"
  shows "julianday (strftime_hms h m s) = Some (round_31 (of_int (iJD h m s) / 86400000))"
  by (simp add: julianday_def parse_strftime[OF assms])

lemma round_to_grid_error:
  fixes x c :: real
  assumes "0 < c"
  shows "\<bar>of_int (round (x * c)) / c - x\<bar> \<le> 1 / (2 * c)"
proof -
  have e: "\<bar>of_int (round (x * c)) - x * c\<bar> \<le> 1 / 2"
    by (rule of_int_round_abs_le)
  have "of_int (round (x * c)) / c - x = (of_int (round (x * c)) - x * c) / c"
    using assms by (simp add: field_simps)
  then have "\<bar>of_int (round (x * c)) / c - x\<bar> = \<bar>of_int (round (x * c)) - x * c\<bar> / c"
    using assms by simp
  also have "\<dots> \<le> (1 / 2) / c"
    using e assms by (rule divide_right_mono[OF _ less_imp_le])
  finally show ?thesis by simp
qed

lemma round_31_error: "\<bar>round_31 x - x\<bar> \<le> 1 / 2 ^ 32"
  unfolding round_31_def using round_to_grid_error[of "2 ^ 31" x] by simp

lemma round_div:
  assumes "0 < b"
  shows "round (real_of_int a / real_of_int b) = (2 * a + b) div (2 * b)"
proof -
  have "real_of_int a / real_of_int b + 1 / 2 = real_of_int (2 * a + b) / real_of_int (2 * b)"
    using assms by (simp add: field_simps)
  then show ?thesis
    unfolding round_def by (simp only: floor_divide_of_int_eq)
qed

lemma round_31_of_int:
  "round_31 (of_int a / 86400000) = of_int ((2 * (a * 2 ^ 31) + 86400000) div 172800000) / 2 ^ 31"
proof -
  have "real_of_int a / 86400000 * 2 ^ 31 = real_of_int (a * 2 ^ 31) / real_of_int 86400000"
    by simp
  then show ?thesis
    unfolding round_31_def using round_div[of 86400000 "a * 2 ^ 31"] by simp
qed

text \<open>The exact difference of two Julian days, in hours.\<close>

lemma exact_hours:
  "(real_of_int (iJD h2 m2 s2) / 86400000 - real_of_int (iJD h1 m1 s1) / 86400000) * 24 =
     (real (h2 * 3600 + m2 * 60 + s2) - real (h1 * 3600 + m1 * 60 + s1)) / 3600"
  by (simp add: iJD_def field_simps)

lemma hours_worked_strftime:
  assumes "h1 < 24" "m1 < 60" "s1 < 60" "h2 < 24" "m2 < 60" "s2 < 60"
    and "punch_in r = strftime_hms h1 m1 s1" and "punch_out r = Some (strftime_hms h2 m2 s2)"
  shows "\<exists>v. hours_worked r = Some v \<and>
     \<bar>v - (real (h2 * 3600 + m2 * 60 + s2) - real (h1 * 3600 + m1 * 60 + s1)) / 3600\<bar>
       \<le> 24 / 2 ^ 31"
proof -
  define xo where "xo = real_of_int (iJD h2 m2 s2) / 86400000"
  define xi where "xi = real_of_int (iJD h1 m1 s1) / 86400000"
  have hw: "hours_worked r = Some ((round_31 xo - round_31 xi) * 24)"
    using assms by (simp add: hours_worked_def julianday_strftime xo_def xi_def)
  have eo: "\<bar>round_31 xo - xo\<bar> \<le> 1 / 2 ^ 32" and ei: "\<bar>round_31 xi - xi\<bar> \<le> 1 / 2 ^ 32"
    by (rule round_31_error)+
  have "\<bar>(round_31 xo - round_31 xi) - (xo - xi)\<bar> \<le> 2 / 2 ^ 32"
    using eo ei by linarith
  then have "\<bar>(round_31 xo - round_31 xi) - (xo - xi)\<bar> * 24 \<le> 2 / 2 ^ 32 * 24"
    by (rule mult_right_mono) simp
  moreover have "(round_31 xo - round_31 xi) * 24 - (xo - xi) * 24 =
      ((round_31 xo - round_31 xi) - (xo - xi)) * 24"
    by (simp add: algebra_simps)
  then have "\<bar>(round_31 xo - round_31 xi) * 24 - (xo - xi) * 24\<bar> =
      \<bar>(round_31 xo - round_31 xi) - (xo - xi)\<bar> * 24"
    by (simp only: abs_mult abs_numeral)
  ultimately have "\<bar>(round_31 xo - round_31 xi) * 24 - (xo - xi) * 24\<bar> \<le> 24 / 2 ^ 31"
    by simp
  moreover have "(xo - xi) * 24 =
      (real (h2 * 3600 + m2 * 60 + s2) - real (h1 * 3600 + m1 * 60 + s1)) / 3600"
    unfolding xo_def xi_def by (rule exact_hours)
  ultimately have "\<bar>(round_31 xo - round_31 xi) * 24 -
      (real (h2 * 3600 + m2 * 60 + s2) - real (h1 * 3600 + m1 * 60 + s1)) / 3600\<bar>
        \<le> 24 / 2 ^ 31"
    by (simp only:)
  then show ?thesis
    unfolding hw by blast
qed

lemma julianday_value:
  "parse_hms t = Some (h, m, s) \<Longrightarrow>
   julianday t = Some (of_int ((2 * (iJD h m s * 2 ^ 31) + 86400000) div 172800000) / 2 ^ 31)"
  by (simp add: julianday_def round_31_of_int)

lemma julianday_nine: "julianday ''09:00:00'' = Some (5264652531400704 / 2 ^ 31)"
proof -
  have "parse_hms ''09:00:00'' = Some (9, 0, 0)"
    by (simp add: parse_two_def digit_val_def)
  then show ?thesis
    by (simp add: julianday_value iJD_def)
qed

lemma julianday_half_past_five: "julianday ''17:30:00'' = Some (5264653291967829 / 2 ^ 31)"
proof -
  have "parse_hms ''17:30:00'' = Some (17, 30, 0)"
    by (simp add: parse_two_def digit_val_def)
  then show ?thesis
    by (simp add: julianday_value iJD_def)
qed

lemma nine_to_half_past_five:
  "hours_worked \<lparr>row_id = i, row_name = n, row_date = d, punch_in = ''09:00:00'',
                  punch_out = Some ''17:30:00''\<rparr> = Some (2281701375 / 2 ^ 28)"
  by (simp add: hours_worked_def julianday_nine julianday_half_past_five)

subsection \<open>The monthly summary\<close>

lemma filter_order_by:
  "filter P (order_by_date_desc_punch_in rs) = order_by_date_desc_punch_in (filter P rs)"
  by (simp add: order_by_date_desc_punch_in_def filter_sort rev_filter[symmetric])

lemma mset_order_by: "mset (order_by_date_desc_punch_in rs) = mset rs"
  by (simp add: order_by_date_desc_punch_in_def)

lemma sum_list_order_by:
  fixes f :: "row \<Rightarrow> real"
  shows "sum_list (map f (order_by_date_desc_punch_in rs)) = sum_list (map f rs)"
proof -
  have "mset (map f (order_by_date_desc_punch_in rs)) = mset (map f rs)"
    by (simp add: mset_order_by)
  then show ?thesis by (metis sum_mset_sum_list)
qed

lemma summary_total_hours:
  "total_hours (get_user_attendance_summary SqlOk db n year month) =
     sum_list (map (\<lambda>r. case hours_worked r of Some v \<Rightarrow> v | None \<Rightarrow> 0)
       (filter (\<lambda>r. row_name r = n) (filter (in_month year month) db)))"
proof -
  let ?rs = "filter (in_month year month) db"
  let ?df = "get_monthly_attendance SqlOk db year month"
  have df: "?df = map (\<lambda>r. (r, hours_worked r)) (order_by_date_desc_punch_in ?rs)"
    by (simp add: get_monthly_attendance_def)
  have user: "filter (\<lambda>(r, h). row_name r = n) ?df =
      map (\<lambda>r. (r, hours_worked r)) (order_by_date_desc_punch_in (filter (\<lambda>r. row_name r = n) ?rs))"
    by (simp add: df filter_map comp_def filter_order_by)
  have hrs: "sum_skipna (map snd (filter (\<lambda>(r, h). row_name r = n) ?df)) =
      sum_list (map (\<lambda>r. case hours_worked r of Some v \<Rightarrow> v | None \<Rightarrow> 0)
        (filter (\<lambda>r. row_name r = n) ?rs))"
    unfolding user sum_skipna_def
    by (simp add: comp_def sum_list_order_by)
  show ?thesis
  proof (cases "?df = []")
    case True
    then have "order_by_date_desc_punch_in ?rs = []" by (simp add: df)
    then have "mset ?rs = {#}" by (metis mset_order_by mset.simps(1))
    then have "?rs = []" by simp
    then show ?thesis using True
      by (simp add: get_user_attendance_summary_def empty_summary_def)
  next
    case False
    show ?thesis
    proof (cases "filter (\<lambda>(r, h). row_name r = n) ?df = []")
      case True
      then have "sum_skipna (map snd (filter (\<lambda>(r, h). row_name r = n) ?df)) = 0"
        by (simp add: sum_skipna_def)
      then show ?thesis using True False hrs
        by (simp add: get_user_attendance_summary_def empty_summary_def Let_def)
    next
      case nonempty: False
      show ?thesis using False nonempty hrs
        by (simp add: get_user_attendance_summary_def Let_def)
    qed
  qed
qed

lemma hours_worked_incomplete: "punch_out r = None \<Longrightarrow> hours_worked r = None"
  by (simp add: hours_worked_def)

lemma summary_counts:
  "total_days_present (get_user_attendance_summary io db n year month) =
     days_with_punch_out (get_user_attendance_summary io db n year month) +
     incomplete_days (get_user_attendance_summary io db n year month) \<and>
   0 \<le> total_days_present (get_user_attendance_summary io db n year month) \<and>
   0 \<le> days_with_punch_out (get_user_attendance_summary io db n year month) \<and>
   0 \<le> incomplete_days (get_user_attendance_summary io db n year month)"
proof -
  let ?df = "get_monthly_attendance io db year month"
  let ?user_df = "filter (\<lambda>(r, h). row_name r = n) ?df"
  have le: "int (length (filter (\<lambda>(r, h). punch_out r \<noteq> None) ?user_df))
              \<le> int (length ?user_df)"
    using length_filter_le[of "\<lambda>(r, h). punch_out r \<noteq> None" ?user_df] by linarith
  show ?thesis
  proof (cases "?df = [] \<or> ?user_df = []")
    case True
    then show ?thesis
      by (auto simp: get_user_attendance_summary_def empty_summary_def Let_def)
  next
    case False
    then have "get_user_attendance_summary io db n year month =
        \<lparr>total_days_present = int (length ?user_df),
         total_hours = (if sum_skipna (map snd ?user_df) \<noteq> 0
                        then sum_skipna (map snd ?user_df) else 0),
         days_with_punch_out = int (length (filter (\<lambda>(r, h). punch_out r \<noteq> None) ?user_df)),
         incomplete_days = int (length ?user_df)
           - int (length (filter (\<lambda>(r, h). punch_out r \<noteq> None) ?user_df))\<rparr>"
      by (simp add: get_user_attendance_summary_def Let_def del: filter_filter)
    then show ?thesis using le by simp
  qed
qed

lemma summary_error: "get_user_attendance_summary SqlRaises db n year month = empty_summary"
  by (simp add: get_user_attendance_summary_def get_monthly_attendance_def)

lemma summary_drop_incomplete:
  assumes "punch_out x = None"
  shows "total_hours (get_user_attendance_summary io (xs @ x # ys) n year month) =
         total_hours (get_user_attendance_summary io (xs @ ys) n year month)"
proof (cases io)
  case SqlOk
  show ?thesis
    unfolding SqlOk summary_total_hours
    using hours_worked_incomplete[OF assms] by simp
next
  case SqlRaises
  then show ?thesis by (simp add: summary_error)
qed

text \<open>
  Claim C8 as stated fails.  From 09:00:00 to 17:30:00 the column \<open>hours_worked\<close> holds
  \<open>2281701375 / 2^28 = 8.49999999627471...\<close>, one unit of \<open>2^-28\<close> below 8.5: the Julian
  day of 17:30:00 is not a double and is rounded.
\<close>

theorem hours_worked_half_past_five_counterexample:
  "hours_worked \<lparr>row_id = 2, row_name = ''alice'', row_date = ''2024-03-04'',
                  punch_in = ''09:00:00'', punch_out = Some ''17:30:00''\<rparr>
     = Some (2281701375 / 2 ^ 28) \<and>
   hours_worked \<lparr>row_id = 2, row_name = ''alice'', row_date = ''2024-03-04'',
                  punch_in = ''09:00:00'', punch_out = Some ''17:30:00''\<rparr> \<noteq> Some (17 / 2)"
  by (simp add: nine_to_half_past_five)

text \<open>
  Claim C8, amended.  For a row whose punch-in and punch-out are the texts of two times
  of day, \<open>hours_worked\<close> is the difference of the two times in hours up to the rounding
  of the two Julian days: the error is at most \<open>24 / 2^31\<close> hours, about \<open>1.2e-8\<close>.  From
  09:00:00 to 17:30:00 it is \<open>2281701375 / 2^28\<close>.  A row without punch-out has no
  \<open>hours_worked\<close>, and the \<open>total_hours\<close> of every monthly summary is the same with that
  row in the table as without it.
\<close>

theorem hours_worked_within_rounding_and_incomplete_zero:
  "(h1 < 24 \<and> m1 < 60 \<and> s1 < 60 \<and> h2 < 24 \<and> m2 < 60 \<and> s2 < 60 \<and>
    punch_in r = strftime_hms h1 m1 s1 \<and> punch_out r = Some (strftime_hms h2 m2 s2) \<longrightarrow>
    (\<exists>v. hours_worked r = Some v \<and>
       \<bar>v - (real (h2 * 3600 + m2 * 60 + s2) - real (h1 * 3600 + m1 * 60 + s1)) / 3600\<bar>
         \<le> 24 / 2 ^ 31)) \<and>
   hours_worked \<lparr>row_id = i, row_name = u, row_date = d, punch_in = ''09:00:00'',
                  punch_out = Some ''17:30:00''\<rparr> = Some (2281701375 / 2 ^ 28) \<and>
   (punch_out x = None \<longrightarrow>
      hours_worked x = None \<and>
      total_hours (get_user_attendance_summary io (xs @ x # ys) n year month) =
      total_hours (get_user_attendance_summary io (xs @ ys) n year month))"
proof (intro conjI impI)
  assume "h1 < 24 \<and> m1 < 60 \<and> s1 < 60 \<and> h2 < 24 \<and> m2 < 60 \<and> s2 < 60 \<and>
    punch_in r = strftime_hms h1 m1 s1 \<and> punch_out r = Some (strftime_hms h2 m2 s2)"
  then show "\<exists>v. hours_worked r = Some v \<and>
       \<bar>v - (real (h2 * 3600 + m2 * 60 + s2) - real (h1 * 3600 + m1 * 60 + s1)) / 3600\<bar>
         \<le> 24 / 2 ^ 31"
    using hours_worked_strftime[of h1 m1 s1 h2 m2 s2 r] by blast
next
  show "hours_worked \<lparr>row_id = i, row_name = u, row_date = d, punch_in = ''09:00:00'',
                  punch_out = Some ''17:30:00''\<rparr> = Some (2281701375 / 2 ^ 28)"
    by (rule nine_to_half_past_five)
next
  assume "punch_out x = None"
  then show "hours_worked x = None" by (rule hours_worked_incomplete)
next
  assume "punch_out x = None"
  then show "total_hours (get_user_attendance_summary io (xs @ x # ys) n year month) =
      total_hours (get_user_attendance_summary io (xs @ ys) n year month)"
    by (rule summary_drop_incomplete)
qed

text \<open>
  An instance: one completed day from 09:00:00 to 17:30:00 and one day without
  punch-out.
\<close>

theorem hours_worked_within_rounding_and_incomplete_zero_witness:
  "(9::nat) < 24 \<and> (0::nat) < 60 \<and> (17::nat) < 24 \<and> (30::nat) < 60 \<and>
   punch_in \<lparr>row_id = 2, row_name = ''alice'', row_date = ''2024-03-04'',
              punch_in = ''09:00:00'', punch_out = Some ''17:30:00''\<rparr> = strftime_hms 9 0 0 \<and>
   punch_out \<lparr>row_id = 2, row_name = ''alice'', row_date = ''2024-03-04'',
               punch_in = ''09:00:00'', punch_out = Some ''17:30:00''\<rparr>
     = Some (strftime_hms 17 30 0) \<and>
   (\<exists>v. hours_worked \<lparr>row_id = 2, row_name = ''alice'', row_date = ''2024-03-04'',
                        punch_in = ''09:00:00'', punch_out = Some ''17:30:00''\<rparr> = Some v \<and>
        \<bar>v - 17 / 2\<bar> \<le> 24 / 2 ^ 31) \<and>
   punch_out \<lparr>row_id = 4, row_name = ''alice'', row_date = ''2024-03-05'',
               punch_in = ''09:15:00'', punch_out = None\<rparr> = None \<and>
   total_hours (get_user_attendance_summary SqlOk
     ([\<lparr>row_id = 2, row_name = ''alice'', row_date = ''2024-03-04'',
         punch_in = ''09:00:00'', punch_out = Some ''17:30:00''\<rparr>] @
      \<lparr>row_id = 4, row_name = ''alice'', row_date = ''2024-03-05'',
        punch_in = ''09:15:00'', punch_out = None\<rparr> # [])
     ''alice'' 2024 3) = 2281701375 / 2 ^ 28 \<and>
   total_hours (get_user_attendance_summary SqlOk
     ([\<lparr>row_id = 2, row_name = ''alice'', row_date = ''2024-03-04'',
         punch_in = ''09:00:00'', punch_out = Some ''17:30:00''\<rparr>] @ [])
     ''alice'' 2024 3) = 2281701375 / 2 ^ 28"
proof -
  let ?r = "\<lparr>row_id = 2, row_name = ''alice'', row_date = ''2024-03-04'',
             punch_in = ''09:00:00'', punch_out = Some ''17:30:00''\<rparr>"
  let ?x = "\<lparr>row_id = 4, row_name = ''alice'', row_date = ''2024-03-05'',
             punch_in = ''09:15:00'', punch_out = None\<rparr>"
  have t1: "strftime_hms 9 0 0 = ''09:00:00''"
    by (simp add: strftime_hms_def two_digits_def digit_char_def)
  have t2: "strftime_hms 17 30 0 = ''17:30:00''"
    by (simp add: strftime_hms_def two_digits_def digit_char_def)
  have f1: "month_start 2024 3 = ''2024-03-01''"
    by (simp add: month_start_def format_d_def digit_char_def)
  have f2: "month_end 2024 3 = ''2024-04-01''"
    by (simp add: month_end_def format_d_def digit_char_def)
  have hr: "hours_worked ?r = Some (2281701375 / 2 ^ 28)"
    by (rule nine_to_half_past_five)
  have px: "punch_out ?x = None"
    by simp
  have hx: "hours_worked ?x = None"
    by (simp add: hours_worked_def)
  have full: "total_hours (get_user_attendance_summary SqlOk ([?r] @ [?x]) ''alice'' 2024 3)
      = 2281701375 / 2 ^ 28"
    by (simp add: get_user_attendance_summary_def get_monthly_attendance_def in_month_def f1 f2
      order_by_date_desc_punch_in_def hr hx sum_skipna_def)
  have hyp: "(9::nat) < 24 \<and> (0::nat) < 60 \<and> (0::nat) < 60 \<and> (17::nat) < 24 \<and> (30::nat) < 60 \<and>
      (0::nat) < 60 \<and> punch_in ?r = strftime_hms 9 0 0 \<and>
      punch_out ?r = Some (strftime_hms 17 30 0)"
    by (simp add: t1 t2)
  have inst: "(\<exists>v. hours_worked ?r = Some v \<and>
        \<bar>v - (real (17 * 3600 + 30 * 60 + 0) - real (9 * 3600 + 0 * 60 + 0)) / 3600\<bar>
          \<le> 24 / 2 ^ 31) \<and>
      total_hours (get_user_attendance_summary SqlOk ([?r] @ ?x # []) ''alice'' 2024 3) =
      total_hours (get_user_attendance_summary SqlOk ([?r] @ []) ''alice'' 2024 3)"
    using hours_worked_within_rounding_and_incomplete_zero[of 9 0 0 17 30 0 ?r 2 "''alice''"
        "''2024-03-04''" ?x SqlOk "[?r]" "[]" "''alice''" 2024 3] hyp px
    by blast
  have v: "(real (17 * 3600 + 30 * 60 + 0) - real (9 * 3600 + 0 * 60 + 0)) / 3600 = 17 / 2"
    by simp
  show ?thesis
    using inst full t1 t2 unfolding v by simp
qed

text \<open>
  Claim C9.  Every summary has \<open>total_days_present = days_with_punch_out +
  incomplete_days\<close> with the three counts not negative.  When the query raises, or the
  month has no row of the user, the three counts and the hours are 0.\<close>

theorem summary_counts_add_up:
  "total_days_present (get_user_attendance_summary io db n year month) =
     days_with_punch_out (get_user_attendance_summary io db n year month) +
     incomplete_days (get_user_attendance_summary io db n year month) \<and>
   0 \<le> total_days_present (get_user_attendance_summary io db n year month) \<and>
   0 \<le> days_with_punch_out (get_user_attendance_summary io db n year month) \<and>
   0 \<le> incomplete_days (get_user_attendance_summary io db n year month) \<and>
   (io = SqlRaises \<or>
    filter (\<lambda>(r, h). row_name r = n) (get_monthly_attendance io db year month) = [] \<longrightarrow>
      total_days_present (get_user_attendance_summary io db n year month) = 0 \<and>
      days_with_punch_out (get_user_attendance_summary io db n year month) = 0 \<and>
      incomplete_days (get_user_attendance_summary io db n year month) = 0 \<and>
      total_hours (get_user_attendance_summary io db n year month) = 0)"
proof -
  have "io = SqlRaises \<or>
        filter (\<lambda>(r, h). row_name r = n) (get_monthly_attendance io db year month) = [] \<Longrightarrow>
        get_user_attendance_summary io db n year month = empty_summary"
    by (auto simp: get_user_attendance_summary_def get_monthly_attendance_def Let_def)
  then show ?thesis
    using summary_counts[of io db n year month] by (auto simp: empty_summary_def)
qed

text \<open>
  A table with two days of alice in March 2024, one of them without punch-out; and the
  summary when the query raises.
\<close>

theorem summary_counts_add_up_witness:
  "get_user_attendance_summary SqlOk
     [\<lparr>row_id = 1, row_name = ''alice'', row_date = ''2024-02-28'', punch_in = ''08:00:00'',
        punch_out = Some ''16:00:00''\<rparr>,
      \<lparr>row_id = 2, row_name = ''alice'', row_date = ''2024-03-04'', punch_in = ''09:00:00'',
        punch_out = Some ''17:30:00''\<rparr>,
      \<lparr>row_id = 3, row_name = ''bob'', row_date = ''2024-03-04'', punch_in = ''09:05:00'',
        punch_out = Some ''12:00:00''\<rparr>,
      \<lparr>row_id = 4, row_name = ''alice'', row_date = ''2024-03-05'', punch_in = ''09:15:00'',
        punch_out = None\<rparr>]
     ''alice'' 2024 3
   = \<lparr>total_days_present = 2, total_hours = 2281701375 / 2 ^ 28, days_with_punch_out = 1,
       incomplete_days = 1\<rparr> \<and>
   (2::int) = 1 + 1 \<and>
   total_days_present (get_user_attendance_summary SqlRaises
     [\<lparr>row_id = 1, row_name = ''alice'', row_date = ''2024-02-28'', punch_in = ''08:00:00'',
        punch_out = Some ''16:00:00''\<rparr>] ''alice'' 2024 2) = 0 \<and>
   days_with_punch_out (get_user_attendance_summary SqlRaises
     [\<lparr>row_id = 1, row_name = ''alice'', row_date = ''2024-02-28'', punch_in = ''08:00:00'',
        punch_out = Some ''16:00:00''\<rparr>] ''alice'' 2024 2) = 0 \<and>
   incomplete_days (get_user_attendance_summary SqlRaises
     [\<lparr>row_id = 1, row_name = ''alice'', row_date = ''2024-02-28'', punch_in = ''08:00:00'',
        punch_out = Some ''16:00:00''\<rparr>] ''alice'' 2024 2) = 0"
proof -
  have f1: "month_start 2024 3 = ''2024-03-01''"
    by (simp add: month_start_def format_d_def digit_char_def)
  have f2: "month_end 2024 3 = ''2024-04-01''"
    by (simp add: month_end_def format_d_def digit_char_def)
  have ex: "get_user_attendance_summary SqlOk
     [\<lparr>row_id = 1, row_name = ''alice'', row_date = ''2024-02-28'', punch_in = ''08:00:00'',
        punch_out = Some ''16:00:00''\<rparr>,
      \<lparr>row_id = 2, row_name = ''alice'', row_date = ''2024-03-04'', punch_in = ''09:00:00'',
        punch_out = Some ''17:30:00''\<rparr>,
      \<lparr>row_id = 3, row_name = ''bob'', row_date = ''2024-03-04'', punch_in = ''09:05:00'',
        punch_out = Some ''12:00:00''\<rparr>,
      \<lparr>row_id = 4, row_name = ''alice'', row_date = ''2024-03-05'', punch_in = ''09:15:00'',
        punch_out = None\<rparr>]
     ''alice'' 2024 3
   = \<lparr>total_days_present = 2, total_hours = 2281701375 / 2 ^ 28, days_with_punch_out = 1,
       incomplete_days = 1\<rparr>"
    by (simp add: get_user_attendance_summary_def get_monthly_attendance_def in_month_def f1 f2
      order_by_date_desc_punch_in_def nine_to_half_past_five hours_worked_incomplete
      sum_skipna_def)
  show ?thesis
    using ex summary_counts_add_up[of SqlRaises
        "[\<lparr>row_id = 1, row_name = ''alice'', row_date = ''2024-02-28'', punch_in = ''08:00:00'',
            punch_out = Some ''16:00:00''\<rparr>]" "''alice''" 2024 2]
    by simp
qed

end
